theory Spec2Isabelle
  imports Complex_Main "HOL-Library.Word"
begin

section \<open>Box tree construction of NetSurf (render/box.c as carried in src/amiga/gui.c)\<close>

text \<open>
  The development embeds the conversion of an XML tree to a box tree:
  \<^verbatim>\<open>xml_to_box\<close>, \<^verbatim>\<open>convert_xml_to_box\<close>, \<^verbatim>\<open>box_construct_element\<close>,
  \<^verbatim>\<open>box_construct_text\<close>, the special case element functions of \<^verbatim>\<open>element_table\<close>,
  \<^verbatim>\<open>plugin_decode\<close> and \<^verbatim>\<open>box_parse_multi_lengths\<close>.

  C strings are \<open>string\<close> (the bytes before the terminating NUL), a pointer that may be
  NULL is an \<open>option\<close>, boxes and form controls live in stores indexed by their address,
  and every allocation asks an allocator oracle, so that each \<^verbatim>\<open>goto no_memory\<close> of the
  source is a branch of the model.
\<close>

subsection \<open>C library\<close>

definition isspace :: "char \<Rightarrow> bool" where
  "isspace c = (c \<in> set [CHR '' '', CHR 0x09, CHR 0x0A, CHR 0x0B, CHR 0x0C, CHR 0x0D])"

definition isdigit :: "char \<Rightarrow> bool" where
  "isdigit c = (c \<in> set ''0123456789'')"

definition tolower :: "char \<Rightarrow> char" where
  "tolower c =
     (case map_of (zip ''ABCDEFGHIJKLMNOPQRSTUVWXYZ'' ''abcdefghijklmnopqrstuvwxyz'') c of
        Some l \<Rightarrow> l
      | None \<Rightarrow> c)"

definition toupper :: "char \<Rightarrow> char" where
  "toupper c =
     (case map_of (zip ''abcdefghijklmnopqrstuvwxyz'' ''ABCDEFGHIJKLMNOPQRSTUVWXYZ'') c of
        Some u \<Rightarrow> u
      | None \<Rightarrow> c)"

text \<open>\<^verbatim>\<open>strcmp(a, b) == 0\<close> is equality of strings; \<^verbatim>\<open>strcasecmp(a, b) == 0\<close> and
  \<^verbatim>\<open>strncasecmp(a, b, n) == 0\<close> compare after folding ASCII letters to lower case.\<close>

definition strcasecmp_eq :: "string \<Rightarrow> string \<Rightarrow> bool" where
  "strcasecmp_eq a b = (map tolower a = map tolower b)"

definition strncasecmp_eq :: "string \<Rightarrow> string \<Rightarrow> nat \<Rightarrow> bool" where
  "strncasecmp_eq a b n = (map tolower (take n a) = map tolower (take n b))"

text \<open>\<^verbatim>\<open>strcspn(s, "\r\n")\<close>: the length of the initial segment free of CR and LF.\<close>

definition strcspn_crlf :: "string \<Rightarrow> nat" where
  "strcspn_crlf s = length (takeWhile (\<lambda>c. c \<noteq> CHR 0x0D \<and> c \<noteq> CHR 0x0A) s)"

text \<open>\<^verbatim>\<open>strtol(s, NULL, 10)\<close> for a 64-bit \<^verbatim>\<open>long\<close>: white space, an optional sign, the
  decimal digits; no digits give 0 and a value out of range saturates.\<close>

definition LONG_MAX :: int where
  "LONG_MAX = 9223372036854775807"

definition LONG_MIN :: int where
  "LONG_MIN = - 9223372036854775808"

definition digit_val :: "char \<Rightarrow> int" where
  "digit_val c = int (of_char c) - 48"

fun strtol_digits :: "int \<Rightarrow> string \<Rightarrow> int" where
  "strtol_digits acc [] = acc"
| "strtol_digits acc (c # cs) =
     (if isdigit c then strtol_digits (acc * 10 + digit_val c) cs else acc)"

definition strtol :: "string \<Rightarrow> int" where
  "strtol s =
     (let s1 = dropWhile isspace s;
          neg = (case s1 of c # cs \<Rightarrow> c = CHR ''-'' | [] \<Rightarrow> False);
          s2 = (case s1 of c # cs \<Rightarrow> if c = CHR ''-'' \<or> c = CHR ''+'' then cs else s1
                | [] \<Rightarrow> s1);
          v = strtol_digits 0 s2
      in max LONG_MIN (min LONG_MAX (if neg then - v else v)))"

text \<open>A \<^verbatim>\<open>float\<close> as far as the code looks at it: it is compared with 0 and the
  constant 1 is stored. \<^verbatim>\<open>strtof\<close> itself is an operation of the environment.\<close>

datatype cfloat = Finite rat | PosInf | NegInf | NaN

fun float_le_zero :: "cfloat \<Rightarrow> bool" where
  "float_le_zero (Finite r) = (r \<le> 0)"
| "float_le_zero NegInf = True"
| "float_le_zero PosInf = False"
| "float_le_zero NaN = False"

subsection \<open>Multi-length lists\<close>

datatype length_type = LENGTH_PX | LENGTH_PERCENT | LENGTH_RELATIVE

record box_multi_length =
  ml_type :: length_type
  ml_value :: cfloat

text \<open>The first loop of \<^verbatim>\<open>box_parse_multi_lengths\<close>:
  \<^verbatim>\<open>for (i = 0, n = 1; s[i]; i++) if (s[i] == ',') n++;\<close>\<close>

fun multi_length_count :: "string \<Rightarrow> nat \<Rightarrow> nat" where
  "multi_length_count [] n = n"
| "multi_length_count (c # cs) n =
     multi_length_count cs (if c = CHR '','' then Suc n else n)"

text \<open>One round of the second loop: skip white space, \<^verbatim>\<open>strtof\<close> (the value and the
  number of characters it consumed, so that \<^verbatim>\<open>end\<close> is \<open>drop k\<close>), replace a value
  \<open>\<le> 0\<close> by 1, read the type off \<^verbatim>\<open>*end\<close>, skip to just after the next comma.
  The result is the entry and the rest of the string.\<close>

definition skip_comma :: "string \<Rightarrow> string" where
  "skip_comma s =
     (case dropWhile (\<lambda>c. c \<noteq> CHR '','') s of
        [] \<Rightarrow> []
      | c # cs \<Rightarrow> cs)"

definition multi_length_entry ::
  "(string \<Rightarrow> cfloat \<times> nat) \<Rightarrow> string \<Rightarrow> box_multi_length \<times> string" where
  "multi_length_entry strtof s =
     (let s1 = dropWhile isspace s;
          (v, k) = strtof s1;
          v1 = (if float_le_zero v then Finite 1 else v);
          s2 = drop k s1;
          t = (case s2 of
                 [] \<Rightarrow> LENGTH_PX
               | c # cs \<Rightarrow>
                   if c = CHR ''%'' then LENGTH_PERCENT
                   else if c = CHR ''*'' then LENGTH_RELATIVE
                   else LENGTH_PX)
      in (\<lparr>ml_type = t, ml_value = v1\<rparr>, skip_comma s2))"

fun multi_length_entries ::
  "(string \<Rightarrow> cfloat \<times> nat) \<Rightarrow> nat \<Rightarrow> string \<Rightarrow> box_multi_length list" where
  "multi_length_entries strtof 0 s = []"
| "multi_length_entries strtof (Suc n) s =
     (case multi_length_entry strtof s of
        (e, s') \<Rightarrow> e # multi_length_entries strtof n s')"

subsection \<open>The XML tree (libxml2)\<close>

text \<open>An element has a name, its attributes in document order (an attribute written
  without a value has no value node) and its children; a text node has its content. The
  HTML parser hands over elements, text and comments, whose \<^verbatim>\<open>name\<close> fields are the
  element name, \<^verbatim>\<open>"text"\<close> and \<^verbatim>\<open>"comment"\<close>.\<close>

datatype xmlNode =
    XML_ELEMENT_NODE string "(string \<times> string option) list" "xmlNode list"
  | XML_TEXT_NODE string
  | XML_COMMENT_NODE string

fun node_name :: "xmlNode \<Rightarrow> string" where
  "node_name (XML_ELEMENT_NODE name props cs) = name"
| "node_name (XML_TEXT_NODE t) = ''text''"
| "node_name (XML_COMMENT_NODE t) = ''comment''"

fun node_children :: "xmlNode \<Rightarrow> xmlNode list" where
  "node_children (XML_ELEMENT_NODE name props cs) = cs"
| "node_children (XML_TEXT_NODE t) = []"
| "node_children (XML_COMMENT_NODE t) = []"

fun node_properties :: "xmlNode \<Rightarrow> (string \<times> string option) list" where
  "node_properties (XML_ELEMENT_NODE name props cs) = props"
| "node_properties (XML_TEXT_NODE t) = []"
| "node_properties (XML_COMMENT_NODE t) = []"

fun is_element :: "xmlNode \<Rightarrow> bool" where
  "is_element (XML_ELEMENT_NODE name props cs) = True"
| "is_element (XML_TEXT_NODE t) = False"
| "is_element (XML_COMMENT_NODE t) = False"

text \<open>\<^verbatim>\<open>xmlGetProp\<close>: the value of the first attribute of that name, the empty string
  for an attribute without a value node, NULL when there is none.\<close>

definition xmlGetProp :: "xmlNode \<Rightarrow> string \<Rightarrow> string option" where
  "xmlGetProp n name =
     (case map_of (node_properties n) name of
        None \<Rightarrow> None
      | Some None \<Rightarrow> Some []
      | Some (Some v) \<Rightarrow> Some v)"

definition xmlHasProp :: "xmlNode \<Rightarrow> string \<Rightarrow> bool" where
  "xmlHasProp n name = (map_of (node_properties n) name \<noteq> None)"

text \<open>\<^verbatim>\<open>xmlNodeGetContent\<close>: the content of a text node or a comment; for an element,
  the text of the text nodes below it in document order (comments below it are passed
  over).\<close>

fun node_text :: "xmlNode \<Rightarrow> string" where
  "node_text (XML_ELEMENT_NODE name props cs) = concat (map node_text cs)"
| "node_text (XML_TEXT_NODE t) = t"
| "node_text (XML_COMMENT_NODE t) = []"

fun xmlNodeGetContent :: "xmlNode \<Rightarrow> string" where
  "xmlNodeGetContent (XML_ELEMENT_NODE name props cs) = concat (map node_text cs)"
| "xmlNodeGetContent (XML_TEXT_NODE t) = t"
| "xmlNodeGetContent (XML_COMMENT_NODE t) = t"

subsection \<open>Styles\<close>

text \<open>Of \<^verbatim>\<open>struct css_style\<close> the record keeps the properties that box construction
  reads. The enumerations follow css/css_enums as far as box.c names their members; the
  order of \<open>css_display\<close> is the one \<^verbatim>\<open>box_map\<close> documents. The white-space values are
  the five that the assertion of \<^verbatim>\<open>box_construct_text\<close> admits.\<close>

datatype css_display =
    CSS_DISPLAY_INHERIT | CSS_DISPLAY_INLINE | CSS_DISPLAY_BLOCK | CSS_DISPLAY_LIST_ITEM
  | CSS_DISPLAY_RUN_IN | CSS_DISPLAY_INLINE_BLOCK | CSS_DISPLAY_TABLE
  | CSS_DISPLAY_INLINE_TABLE | CSS_DISPLAY_TABLE_ROW_GROUP | CSS_DISPLAY_TABLE_HEADER_GROUP
  | CSS_DISPLAY_TABLE_FOOTER_GROUP | CSS_DISPLAY_TABLE_ROW | CSS_DISPLAY_TABLE_COLUMN_GROUP
  | CSS_DISPLAY_TABLE_COLUMN | CSS_DISPLAY_TABLE_CELL | CSS_DISPLAY_TABLE_CAPTION
  | CSS_DISPLAY_NONE

datatype css_float = CSS_FLOAT_INHERIT | CSS_FLOAT_NONE | CSS_FLOAT_LEFT | CSS_FLOAT_RIGHT

datatype css_white_space =
    CSS_WHITE_SPACE_NORMAL | CSS_WHITE_SPACE_NOWRAP | CSS_WHITE_SPACE_PRE
  | CSS_WHITE_SPACE_PRE_WRAP | CSS_WHITE_SPACE_PRE_LINE

datatype css_text_transform =
    CSS_TEXT_TRANSFORM_INHERIT | CSS_TEXT_TRANSFORM_NONE | CSS_TEXT_TRANSFORM_CAPITALIZE
  | CSS_TEXT_TRANSFORM_UPPERCASE | CSS_TEXT_TRANSFORM_LOWERCASE

record css_style =
  display :: css_display
  float' :: css_float
  white_space :: css_white_space
  text_transform :: css_text_transform
  background_image :: "string option"
  background_color :: nat

subsection \<open>Boxes, form controls and the content under construction\<close>

datatype box_type =
    BOX_BLOCK | BOX_INLINE_CONTAINER | BOX_INLINE | BOX_TABLE | BOX_TABLE_ROW
  | BOX_TABLE_CELL | BOX_TABLE_ROW_GROUP | BOX_FLOAT_LEFT | BOX_FLOAT_RIGHT
  | BOX_INLINE_BLOCK | BOX_BR

record plugin_params =
  pp_name :: "string option"
  pp_value :: "string option"
  pp_type :: "string option"
  pp_valuetype :: "string option"

text \<open>\<open>po_params\<close> is the singly linked list, head first.\<close>

record object_params =
  po_data :: "string option"
  po_type :: "string option"
  po_codetype :: "string option"
  po_codebase :: "string option"
  po_classid :: "string option"
  po_basehref :: "string option"
  po_params :: "plugin_params list"

datatype column_type = COLUMN_WIDTH_FIXED | COLUMN_WIDTH_PERCENT | COLUMN_WIDTH_RELATIVE

record column =
  cl_type :: column_type
  cl_width :: cfloat
  cl_min :: int
  cl_max :: int

text \<open>\<^verbatim>\<open>struct box\<close>. A pointer to a box is its index in the box pool. \<open>b_children\<close>
  is the list that the C links through \<^verbatim>\<open>children\<close>, \<^verbatim>\<open>next\<close>, \<^verbatim>\<open>prev\<close> and
  \<^verbatim>\<open>last\<close>: \<^verbatim>\<open>last\<close> is its last element and \<^verbatim>\<open>prev\<close> of a child the element before it.
  \<open>b_columns\<close> and \<open>b_rows\<close> are \<^verbatim>\<open>unsigned int\<close>.\<close>

record box =
  b_type :: box_type
  b_style :: "css_style option"
  b_style_clone :: bool
  b_text :: "string option"
  b_length :: nat
  b_space :: bool
  b_href :: "string option"
  b_title :: "string option"
  b_id :: "string option"
  b_columns :: "32 word"
  b_rows :: "32 word"
  b_children :: "nat list"
  b_parent :: "nat option"
  b_gadget :: "nat option"
  b_usemap :: "string option"
  b_object_params :: "object_params option"
  b_col :: "column list"
  b_min_width :: int
  b_max_width :: int

datatype gadget_type =
    GADGET_HIDDEN | GADGET_TEXTBOX | GADGET_RADIO | GADGET_CHECKBOX | GADGET_SELECT
  | GADGET_TEXTAREA | GADGET_IMAGE | GADGET_PASSWORD | GADGET_SUBMIT | GADGET_RESET
  | GADGET_FILE

record form_option =
  fo_selected :: bool
  fo_initial_selected :: bool
  fo_value :: string
  fo_text :: string

text \<open>\<^verbatim>\<open>struct form_control\<close>; \<open>g_items\<close> is the option list of a select and
  \<open>g_current\<close> the position of its current option.\<close>

record form_control =
  g_type :: gadget_type
  g_name :: "string option"
  g_value :: "string option"
  g_initial_value :: "string option"
  g_length :: nat
  g_maxlength :: int
  g_selected :: bool
  g_box :: "nat option"
  g_form :: "nat option"
  g_multiple :: bool
  g_items :: "form_option list"
  g_num_items :: nat
  g_num_selected :: nat
  g_current :: "nat option"

datatype form_method = method_GET | method_POST_URLENC | method_POST_MULTIPART

record form =
  fm_action :: string
  fm_method :: form_method
  fm_controls :: "nat list"

text \<open>A request made with \<^verbatim>\<open>html_fetch_object\<close>; \<open>f_image_types\<close> says that the
  permitted types are \<^verbatim>\<open>image_types\<close> (otherwise 0, any type).\<close>

record fetch =
  f_url :: string
  f_box :: nat
  f_image_types :: bool
  f_width :: int
  f_height :: int
  f_background :: bool

text \<open>\<^verbatim>\<open>struct content\<close> of type CONTENT_HTML: the box pool, the form controls and
  forms allocated so far (a freed control is \<open>None\<close>), the fetches requested, and the
  number of allocation requests made.\<close>

record content =
  base_url :: string
  available_width :: int
  background_colour :: nat
  boxes :: "box list"
  gadgets :: "form_control option list"
  forms :: "form list"
  fetches :: "fetch list"
  allocs :: nat
  layout :: "nat option"

text \<open>Status of box tree construction; the \<^verbatim>\<open>content\<close> pointer of
  \<^verbatim>\<open>struct box_status\<close> is the state that is threaded through.\<close>

record box_status =
  st_href :: "string option"
  st_title :: "string option"
  current_form :: "nat option"
  st_id :: "string option"

text \<open>Return type for special case element functions. The result
  \<^verbatim>\<open>{0, false, true}\<close> (memory error) is the error value \<open>NoMemory\<close>.\<close>

record box_result =
  res_box :: "nat option"
  res_convert_children :: bool

datatype error = NoMemory | Abort

datatype url_func_result = URL_FUNC_OK string | URL_FUNC_FAILED | URL_FUNC_NOMEM

text \<open>What box construction takes from its surroundings: whether the k-th allocation
  request succeeds, \<^verbatim>\<open>url_join(rel, base)\<close>, whether \<^verbatim>\<open>content_lookup\<close> of a MIME type
  is \<^verbatim>\<open>CONTENT_OTHER\<close>, \<^verbatim>\<open>messages_get\<close>, \<^verbatim>\<open>strtof\<close>, the style that the CSS engine
  and \<^verbatim>\<open>box_get_style\<close> compute for an element from its parent's (NULL on memory
  exhaustion), \<^verbatim>\<open>css_base_style\<close>, and \<^verbatim>\<open>box_normalise_block\<close> of the normalisation
  pass, applied to a box (no result on memory exhaustion).\<close>

record env =
  malloc_ok :: "nat \<Rightarrow> bool"
  url_join :: "string \<Rightarrow> string \<Rightarrow> url_func_result"
  content_lookup_other :: "string \<Rightarrow> bool"
  messages_get :: "string \<Rightarrow> string"
  strtof :: "string \<Rightarrow> cfloat \<times> nat"
  box_get_style :: "css_style \<Rightarrow> xmlNode \<Rightarrow> css_style option"
  css_base_style :: css_style
  box_normalise_block :: "nat \<Rightarrow> content \<Rightarrow> content option"

subsection \<open>Sequencing with errors\<close>

type_synonym 'a cm = "content \<Rightarrow> error + ('a \<times> content)"

definition ret :: "'a \<Rightarrow> 'a cm" where
  "ret x = (\<lambda>c. Inr (x, c))"

definition bnd :: "'a cm \<Rightarrow> ('a \<Rightarrow> 'b cm) \<Rightarrow> 'b cm" where
  "bnd m f = (\<lambda>c. case m c of Inl e \<Rightarrow> Inl e | Inr (x, c') \<Rightarrow> f x c')"

definition fail :: "error \<Rightarrow> 'a cm" where
  "fail e = (\<lambda>c. Inl e)"

definition modify :: "(content \<Rightarrow> content) \<Rightarrow> unit cm" where
  "modify f = (\<lambda>c. Inr ((), f c))"

definition gets :: "(content \<Rightarrow> 'a) \<Rightarrow> 'a cm" where
  "gets f = (\<lambda>c. Inr (f c, c))"

text \<open>An allocation whose failure the caller answers with \<^verbatim>\<open>goto no_memory\<close>, and one
  whose result the caller inspects itself.\<close>

definition alloc :: "env \<Rightarrow> unit cm" where
  "alloc e = (\<lambda>c. if malloc_ok e (allocs c) then Inr ((), c\<lparr>allocs := Suc (allocs c)\<rparr>)
                  else Inl NoMemory)"

definition try_alloc :: "env \<Rightarrow> bool cm" where
  "try_alloc e = (\<lambda>c. Inr (malloc_ok e (allocs c), c\<lparr>allocs := Suc (allocs c)\<rparr>))"

definition strdup :: "env \<Rightarrow> string \<Rightarrow> string cm" where
  "strdup e s = bnd (alloc e) (\<lambda>_. ret s)"

text \<open>\<^verbatim>\<open>if ((s = xmlGetProp(n, a)) != NULL) { x = strdup(s); if (!x) goto no_memory; }\<close>\<close>

definition strdup_opt :: "env \<Rightarrow> string option \<Rightarrow> string option cm" where
  "strdup_opt e so =
     (case so of
        None \<Rightarrow> ret None
      | Some s \<Rightarrow> bnd (strdup e s) (\<lambda>x. ret (Some x)))"

subsection \<open>utils/utils.c, render/box.c, render/form.c and render/html.c\<close>

text \<open>Modelled from the spec: \<^verbatim>\<open>squash_whitespace\<close>, \<^verbatim>\<open>cnv_space2nbsp\<close> and \<^verbatim>\<open>strip\<close>
  of utils/utils.c are not under src/. The spec has squashing "collapse runs of whitespace
  to single spaces" and the conversion turn spaces into "non-breaking-space code points";
  box.c calls \<^verbatim>\<open>strip\<close> to "remove leading and trailing whitespace" and
  \<^verbatim>\<open>cnv_space2nbsp\<close> to "replace spaces/TABs with hard spaces". The two that return a
  new string allocate it.\<close>

definition is_blank :: "char \<Rightarrow> bool" where
  "is_blank c = (c \<in> set [CHR '' '', CHR 0x0A, CHR 0x0D, CHR 0x09])"

function squash :: "string \<Rightarrow> string" where
  "squash [] = []"
| "squash (c # cs) =
     (if is_blank c then CHR '' '' # squash (dropWhile is_blank cs) else c # squash cs)"
  by pat_completeness auto
termination
  by (relation "measure length") (auto simp: less_Suc_eq_le length_dropWhile_le)

definition squash_whitespace :: "env \<Rightarrow> string \<Rightarrow> string cm" where
  "squash_whitespace e s = bnd (alloc e) (\<lambda>_. ret (squash s))"

definition space2nbsp :: "string \<Rightarrow> string" where
  "space2nbsp s =
     concat (map (\<lambda>c. if c = CHR '' '' \<or> c = CHR 0x09 then [CHR 0xC2, CHR 0xA0] else [c]) s)"

definition cnv_space2nbsp :: "env \<Rightarrow> string \<Rightarrow> string cm" where
  "cnv_space2nbsp e s = bnd (alloc e) (\<lambda>_. ret (space2nbsp s))"

definition strip :: "string \<Rightarrow> string" where
  "strip s = rev (dropWhile isspace (rev (dropWhile isspace s)))"

text \<open>Modelled from the spec: \<^verbatim>\<open>box_create\<close>, \<^verbatim>\<open>box_add_child\<close> and \<^verbatim>\<open>box_free\<close> of
  render/box.c are not under src/. A new box is allocated from the pool with the style and
  the strings given, no text, no children, no parent, no control, span counts 1 ("default
  1") and, as box.c relies on ("set box type from style if it has not been set already"),
  the kind Inline. \<^verbatim>\<open>box_add_child\<close> appends to the parent's child list and sets the
  child's parent ("children: ordered owned list; parent: non-owning back-reference").
  \<^verbatim>\<open>box_free\<close> releases what a box owns, here its control; the pool keeps the slots.\<close>

definition new_box ::
  "css_style option \<Rightarrow> string option \<Rightarrow> string option \<Rightarrow> string option \<Rightarrow> box" where
  "new_box style href title ident =
     \<lparr>b_type = BOX_INLINE, b_style = style, b_style_clone = False, b_text = None,
      b_length = 0, b_space = False, b_href = href, b_title = title, b_id = ident,
      b_columns = 1, b_rows = 1, b_children = [], b_parent = None, b_gadget = None,
      b_usemap = None, b_object_params = None, b_col = [], b_min_width = 0,
      b_max_width = 0\<rparr>"

definition box_create ::
  "env \<Rightarrow> css_style option \<Rightarrow> string option \<Rightarrow> string option \<Rightarrow> string option \<Rightarrow> nat cm"
  where
  "box_create e style href title ident =
     bnd (alloc e) (\<lambda>_ c.
       Inr (length (boxes c), c\<lparr>boxes := boxes c @ [new_box style href title ident]\<rparr>))"

text \<open>Assignment through a box pointer: \<^verbatim>\<open>box->field = v\<close>.\<close>

definition upd_box :: "nat \<Rightarrow> (box \<Rightarrow> box) \<Rightarrow> content \<Rightarrow> content" where
  "upd_box b f c = c\<lparr>boxes := (boxes c)[b := f (boxes c ! b)]\<rparr>"

definition set_box :: "nat \<Rightarrow> (box \<Rightarrow> box) \<Rightarrow> unit cm" where
  "set_box b f = modify (upd_box b f)"

definition box_add_child :: "nat \<Rightarrow> nat \<Rightarrow> unit cm" where
  "box_add_child parent child =
     bnd (set_box parent (\<lambda>b. b\<lparr>b_children := b_children b @ [child]\<rparr>)) (\<lambda>_.
     set_box child (\<lambda>b. b\<lparr>b_parent := Some parent\<rparr>))"

text \<open>Modelled from the spec: \<^verbatim>\<open>form_new_control\<close>, \<^verbatim>\<open>form_free_control\<close>,
  \<^verbatim>\<open>form_add_control\<close>, \<^verbatim>\<open>form_add_option\<close> and \<^verbatim>\<open>form_new\<close> of render/form.c are not
  under src/. A control is created with its kind and nothing else set; registering it
  with a form appends it to the form's controls and sets its owning form; an option is
  appended to the option list of a select, and marked selected when it is declared
  selected and the select has no selection yet or takes several.\<close>

definition new_control :: "gadget_type \<Rightarrow> form_control" where
  "new_control t =
     \<lparr>g_type = t, g_name = None, g_value = None, g_initial_value = None, g_length = 0,
      g_maxlength = 0, g_selected = False, g_box = None, g_form = None,
      g_multiple = False, g_items = [], g_num_items = 0, g_num_selected = 0,
      g_current = None\<rparr>"

definition form_new_control :: "env \<Rightarrow> gadget_type \<Rightarrow> nat cm" where
  "form_new_control e t =
     bnd (alloc e) (\<lambda>_ c.
       Inr (length (gadgets c), c\<lparr>gadgets := gadgets c @ [Some (new_control t)]\<rparr>))"

definition form_free_control :: "nat \<Rightarrow> unit cm" where
  "form_free_control g = modify (\<lambda>c. c\<lparr>gadgets := (gadgets c)[g := None]\<rparr>)"

text \<open>Assignment through a control pointer: \<^verbatim>\<open>gadget->field = v\<close>.\<close>

definition upd_gadget :: "nat \<Rightarrow> (form_control \<Rightarrow> form_control) \<Rightarrow> content \<Rightarrow> content" where
  "upd_gadget g f c = c\<lparr>gadgets := (gadgets c)[g := map_option f (gadgets c ! g)]\<rparr>"

definition set_gadget :: "nat \<Rightarrow> (form_control \<Rightarrow> form_control) \<Rightarrow> unit cm" where
  "set_gadget g f = modify (upd_gadget g f)"

text \<open>Reading through a control pointer; a freed control is not read.\<close>

definition get_gadget :: "nat \<Rightarrow> form_control cm" where
  "get_gadget g =
     (\<lambda>c. if g < length (gadgets c)
          then (case gadgets c ! g of None \<Rightarrow> Inl Abort | Some x \<Rightarrow> Inr (x, c))
          else Inl Abort)"

definition form_add_control :: "nat \<Rightarrow> nat \<Rightarrow> unit cm" where
  "form_add_control fm g =
     bnd (set_gadget g (\<lambda>x. x\<lparr>g_form := Some fm\<rparr>)) (\<lambda>_.
     modify (\<lambda>c. c\<lparr>forms := (forms c)[fm := (forms c ! fm)\<lparr>fm_controls :=
                                   fm_controls (forms c ! fm) @ [g]\<rparr>]\<rparr>))"

definition add_option :: "string \<Rightarrow> string \<Rightarrow> bool \<Rightarrow> form_control \<Rightarrow> form_control" where
  "add_option v t selected x =
     (let sel = (selected \<and> (g_num_selected x = 0 \<or> g_multiple x))
      in x\<lparr>g_items := g_items x @
              [\<lparr>fo_selected = sel, fo_initial_selected = sel, fo_value = v, fo_text = t\<rparr>],
            g_num_selected := (if sel then Suc (g_num_selected x) else g_num_selected x),
            g_current := (if sel then Some (length (g_items x)) else g_current x),
            g_num_items := Suc (g_num_items x)\<rparr>)"

definition form_add_option :: "env \<Rightarrow> nat \<Rightarrow> string \<Rightarrow> string \<Rightarrow> bool \<Rightarrow> unit cm" where
  "form_add_option e g v t selected =
     bnd (alloc e) (\<lambda>_. set_gadget g (add_option v t selected))"

definition form_new :: "env \<Rightarrow> string \<Rightarrow> form_method \<Rightarrow> nat cm" where
  "form_new e action m =
     bnd (alloc e) (\<lambda>_ c.
       Inr (length (forms c),
            c\<lparr>forms := forms c @ [\<lparr>fm_action = action, fm_method = m, fm_controls = []\<rparr>]\<rparr>))"

definition box_free :: "nat \<Rightarrow> unit cm" where
  "box_free b =
     bnd (gets (\<lambda>c. b_gadget (boxes c ! b))) (\<lambda>g.
     case g of None \<Rightarrow> ret () | Some x \<Rightarrow> form_free_control x)"

text \<open>Modelled from the spec: \<^verbatim>\<open>html_fetch_object\<close> of render/html.c is not under src/.
  It is the fetcher's "request(url, content_type_hint, width_hint, height_hint,
  background_hint, owner_box)": the request is recorded, and the result is false on
  memory exhaustion.\<close>

definition html_fetch_object ::
  "env \<Rightarrow> string \<Rightarrow> nat \<Rightarrow> bool \<Rightarrow> int \<Rightarrow> int \<Rightarrow> bool \<Rightarrow> bool cm" where
  "html_fetch_object e url b image_types w h background =
     bnd (try_alloc e) (\<lambda>ok.
       if ok
       then bnd (modify (\<lambda>c. c\<lparr>fetches := fetches c @
                   [\<lparr>f_url = url, f_box = b, f_image_types = image_types, f_width = w,
                     f_height = h, f_background = background\<rparr>]\<rparr>)) (\<lambda>_. ret True)
       else ret False)"

subsection \<open>Special case elements\<close>

text \<open>A special case element function takes the node, the status (which it may
  update through the pointer) and the style found for the element; it returns the box, if
  any, whether the children are to be converted, and the status.\<close>

definition result :: "nat option \<Rightarrow> bool \<Rightarrow> box_status \<Rightarrow> (box_result \<times> box_status) cm" where
  "result b conv status = ret (\<lparr>res_box = b, res_convert_children = conv\<rparr>, status)"

definition box_a ::
  "env \<Rightarrow> xmlNode \<Rightarrow> box_status \<Rightarrow> css_style \<Rightarrow> (box_result \<times> box_status) cm" where
  "box_a e n status style =
     (let status1 = (case xmlGetProp n ''href'' of
                       Some s \<Rightarrow> status\<lparr>st_href := Some s\<rparr>
                     | None \<Rightarrow> status)
      in
      bnd (case xmlGetProp n ''name'' of
             None \<Rightarrow> ret (st_id status1)
           | Some s1 \<Rightarrow>
               if st_id status1 = Some s1 then ret (st_id status1)
               else if st_id status1 = None
               then bnd (squash_whitespace e s1) (\<lambda>x. ret (Some x))
               else ret None) (\<lambda>ident.
      bnd (box_create e (Some style) (st_href status1) (st_title status1) ident) (\<lambda>box.
      result (Some box) True status1)))"

definition box_body ::
  "env \<Rightarrow> xmlNode \<Rightarrow> box_status \<Rightarrow> css_style \<Rightarrow> (box_result \<times> box_status) cm" where
  "box_body e n status style =
     bnd (modify (\<lambda>c. c\<lparr>background_colour := background_color style\<rparr>)) (\<lambda>_.
     bnd (box_create e (Some style) (st_href status) (st_title status) (st_id status)) (\<lambda>box.
     result (Some box) True status))"

definition box_br ::
  "env \<Rightarrow> xmlNode \<Rightarrow> box_status \<Rightarrow> css_style \<Rightarrow> (box_result \<times> box_status) cm" where
  "box_br e n status style =
     bnd (box_create e (Some style) (st_href status) (st_title status) (st_id status)) (\<lambda>box.
     bnd (set_box box (\<lambda>b. b\<lparr>b_type := BOX_BR\<rparr>)) (\<lambda>_.
     result (Some box) False status))"

text \<open>\<^verbatim>\<open>(map[0] == '#') ? strdup(map + 1) : strdup(map)\<close>\<close>

definition usemap_name :: "string \<Rightarrow> string" where
  "usemap_name m = (case m of [] \<Rightarrow> m | c # cs \<Rightarrow> if c = CHR ''#'' then cs else m)"

definition box_image ::
  "env \<Rightarrow> xmlNode \<Rightarrow> box_status \<Rightarrow> css_style \<Rightarrow> (box_result \<times> box_status) cm" where
  "box_image e n status style =
     bnd (box_create e (Some style) (st_href status) (st_title status) (st_id status)) (\<lambda>box.
     bnd (case xmlGetProp n ''alt'' of
            None \<Rightarrow> ret ()
          | Some s2 \<Rightarrow>
              bnd (squash_whitespace e s2) (\<lambda>t.
              set_box box (\<lambda>b. b\<lparr>b_text := Some t, b_length := length t\<rparr>))) (\<lambda>_.
     bnd (case xmlGetProp n ''usemap'' of
            None \<Rightarrow> ret ()
          | Some m \<Rightarrow>
              bnd (strdup e (usemap_name m)) (\<lambda>u.
              set_box box (\<lambda>b. b\<lparr>b_usemap := Some u\<rparr>))) (\<lambda>_.
     case xmlGetProp n ''src'' of
       None \<Rightarrow> result (Some box) False status
     | Some s \<Rightarrow>
         bnd (gets base_url) (\<lambda>base.
         case url_join e (strip s) base of
           URL_FUNC_NOMEM \<Rightarrow> fail NoMemory
         | URL_FUNC_FAILED \<Rightarrow> result (Some box) False status
         | URL_FUNC_OK url \<Rightarrow>
             if url = base then result (Some box) False status
             else
               bnd (gets available_width) (\<lambda>w.
               bnd (html_fetch_object e url box True w 1000 False) (\<lambda>ok.
               if ok then result (Some box) False status else fail NoMemory))))))"

definition box_form ::
  "env \<Rightarrow> xmlNode \<Rightarrow> box_status \<Rightarrow> css_style \<Rightarrow> (box_result \<times> box_status) cm" where
  "box_form e n status style =
     bnd (box_create e (Some style) (st_href status) (st_title status) (st_id status)) (\<lambda>box.
     case xmlGetProp n ''action'' of
       None \<Rightarrow> result (Some box) True status
     | Some action \<Rightarrow>
         (let fmethod =
                (case xmlGetProp n ''method'' of
                   None \<Rightarrow> method_GET
                 | Some m \<Rightarrow>
                     if strcasecmp_eq m ''post''
                     then (case xmlGetProp n ''enctype'' of
                             None \<Rightarrow> method_POST_URLENC
                           | Some enctype \<Rightarrow>
                               if strcasecmp_eq enctype ''multipart/form-data''
                               then method_POST_MULTIPART else method_POST_URLENC)
                     else method_GET)
          in bnd (form_new e action fmethod) (\<lambda>fm.
             result (Some box) True (status\<lparr>current_form := Some fm\<rparr>))))"

text \<open>Stepping over a line end: \<^verbatim>\<open>if (current[0] == '\r' && current[1] == '\n')
  current += 2; else if (current[0] != 0) current++;\<close>\<close>

fun skip_eol :: "string \<Rightarrow> string" where
  "skip_eol [] = []"
| "skip_eol [x] = []"
| "skip_eol (x # y # rest) = (if x = CHR 0x0D \<and> y = CHR 0x0A then rest else y # rest)"

lemma skip_eol_shorter: "drop n s = x # rest \<Longrightarrow> length (skip_eol (x # rest)) < length s"
proof -
  assume a: "drop n s = x # rest"
  have "length (x # rest) \<le> length s"
    by (metis a diff_le_self length_drop)
  moreover have "length (skip_eol (x # rest)) < length (x # rest)"
    by (cases rest) auto
  ultimately show ?thesis by linarith
qed

text \<open>The loop of \<^verbatim>\<open>box_textarea\<close> over the content: an INLINE per line, a BR
  between two lines. A failed \<^verbatim>\<open>strndup\<close> frees the box and ends the function with
  \<^verbatim>\<open>{NULL, false, false}\<close>; the result says whether the loop ran to its end.\<close>

function textarea_lines :: "env \<Rightarrow> css_style \<Rightarrow> nat \<Rightarrow> nat \<Rightarrow> string \<Rightarrow> bool cm" where
  "textarea_lines e style box inline_container current =
     (let len = strcspn_crlf current in
      bnd (try_alloc e) (\<lambda>ok.
      if \<not> ok then bnd (box_free box) (\<lambda>_. ret False)
      else
        bnd (box_create e (Some style) None None None) (\<lambda>inline_box.
        bnd (set_box inline_box (\<lambda>b. b\<lparr>b_type := BOX_INLINE, b_style_clone := True,
               b_text := Some (take len current), b_length := len\<rparr>)) (\<lambda>_.
        bnd (box_add_child inline_container inline_box) (\<lambda>_.
        case drop len current of
          [] \<Rightarrow> ret True
        | x # rest \<Rightarrow>
            bnd (box_create e (Some style) None None None) (\<lambda>br_box.
            bnd (set_box br_box (\<lambda>b. b\<lparr>b_type := BOX_BR, b_style_clone := True\<rparr>)) (\<lambda>_.
            bnd (box_add_child inline_container br_box) (\<lambda>_.
            textarea_lines e style box inline_container (skip_eol (x # rest))))))))))"
  by pat_completeness auto
termination
  by (relation "measure (\<lambda>(e, style, box, ic, current). length current)")
    (auto dest: skip_eol_shorter simp del: skip_eol.simps)

definition box_textarea ::
  "env \<Rightarrow> xmlNode \<Rightarrow> box_status \<Rightarrow> css_style \<Rightarrow> (box_result \<times> box_status) cm" where
  "box_textarea e n status style =
     bnd (box_create e (Some style) None None (st_id status)) (\<lambda>box.
     bnd (set_box box (\<lambda>b. b\<lparr>b_type := BOX_INLINE_BLOCK\<rparr>)) (\<lambda>_.
     bnd (form_new_control e GADGET_TEXTAREA) (\<lambda>gadget.
     bnd (set_box box (\<lambda>b. b\<lparr>b_gadget := Some gadget\<rparr>)) (\<lambda>_.
     bnd (set_gadget gadget (\<lambda>g. g\<lparr>g_box := Some box\<rparr>)) (\<lambda>_.
     bnd (case xmlGetProp n ''name'' of
            None \<Rightarrow> ret ()
          | Some s \<Rightarrow>
              bnd (strdup e s) (\<lambda>x. set_gadget gadget (\<lambda>g. g\<lparr>g_name := Some x\<rparr>))) (\<lambda>_.
     bnd (box_create e None None None None) (\<lambda>inline_container.
     bnd (set_box inline_container (\<lambda>b. b\<lparr>b_type := BOX_INLINE_CONTAINER\<rparr>)) (\<lambda>_.
     bnd (box_add_child box inline_container) (\<lambda>_.
     bnd (try_alloc e) (\<lambda>got_content.
     if \<not> got_content then fail Abort
     else
       bnd (textarea_lines e style box inline_container (xmlNodeGetContent n)) (\<lambda>done.
       if \<not> done then result None False status
       else
         bnd (case current_form status of
                None \<Rightarrow> ret ()
              | Some fm \<Rightarrow> form_add_control fm gadget) (\<lambda>_.
         result (Some box) False status))))))))))))"

text \<open>\<^verbatim>\<open>box_select_add_option\<close>: add an option to a form select control.\<close>

definition box_select_add_option :: "env \<Rightarrow> nat \<Rightarrow> xmlNode \<Rightarrow> unit cm" where
  "box_select_add_option e control n =
     bnd (alloc e) (\<lambda>_.
     bnd (squash_whitespace e (xmlNodeGetContent n)) (\<lambda>t.
     bnd (strdup e (case xmlGetProp n ''value'' of Some s \<Rightarrow> s | None \<Rightarrow> t)) (\<lambda>v.
     form_add_option e control v t (xmlHasProp n ''selected''))))"

text \<open>The loops of \<^verbatim>\<open>box_select\<close> over the children of the select and over the
  children of an optgroup.\<close>

fun select_optgroup :: "env \<Rightarrow> nat \<Rightarrow> xmlNode list \<Rightarrow> unit cm" where
  "select_optgroup e gadget [] = ret ()"
| "select_optgroup e gadget (c2 # cs) =
     bnd (if node_name c2 = ''option'' then box_select_add_option e gadget c2 else ret ())
       (\<lambda>_. select_optgroup e gadget cs)"

fun select_children :: "env \<Rightarrow> nat \<Rightarrow> xmlNode list \<Rightarrow> unit cm" where
  "select_children e gadget [] = ret ()"
| "select_children e gadget (c # cs) =
     bnd (if node_name c = ''option'' then box_select_add_option e gadget c
          else if node_name c = ''optgroup'' then select_optgroup e gadget (node_children c)
          else ret ())
       (\<lambda>_. select_children e gadget cs)"

definition box_select ::
  "env \<Rightarrow> xmlNode \<Rightarrow> box_status \<Rightarrow> css_style \<Rightarrow> (box_result \<times> box_status) cm" where
  "box_select e n status style =
     bnd (form_new_control e GADGET_SELECT) (\<lambda>gadget.
     bnd (set_gadget gadget (\<lambda>g. g\<lparr>g_multiple := (xmlGetProp n ''multiple'' \<noteq> None),
            g_items := [], g_num_items := 0, g_num_selected := 0\<rparr>)) (\<lambda>_.
     bnd (select_children e gadget (node_children n)) (\<lambda>_.
     bnd (get_gadget gadget) (\<lambda>g0.
     if g_num_items g0 = 0
     then bnd (form_free_control gadget) (\<lambda>_. result None False status)
     else
       bnd (case xmlGetProp n ''name'' of
              None \<Rightarrow> ret ()
            | Some s \<Rightarrow>
                bnd (strdup e s) (\<lambda>x. set_gadget gadget (\<lambda>g. g\<lparr>g_name := Some x\<rparr>))) (\<lambda>_.
       bnd (box_create e (Some style) None None (st_id status)) (\<lambda>box.
       bnd (set_box box (\<lambda>b. b\<lparr>b_type := BOX_INLINE_BLOCK, b_gadget := Some gadget\<rparr>)) (\<lambda>_.
       bnd (set_gadget gadget (\<lambda>g. g\<lparr>g_box := Some box\<rparr>)) (\<lambda>_.
       bnd (box_create e None None None None) (\<lambda>inline_container.
       bnd (set_box inline_container (\<lambda>b. b\<lparr>b_type := BOX_INLINE_CONTAINER\<rparr>)) (\<lambda>_.
       bnd (box_create e (Some style) None None None) (\<lambda>inline_box.
       bnd (set_box inline_box (\<lambda>b. b\<lparr>b_type := BOX_INLINE, b_style_clone := True\<rparr>)) (\<lambda>_.
       bnd (box_add_child inline_container inline_box) (\<lambda>_.
       bnd (box_add_child box inline_container) (\<lambda>_.
       bnd (if \<not> g_multiple g0 \<and> g_num_selected g0 = 0
            then set_gadget gadget (\<lambda>g. g\<lparr>g_current := Some 0,
                   g_items := (g_items g)[0 := (g_items g ! 0)\<lparr>fo_initial_selected := True,
                                fo_selected := True\<rparr>],
                   g_num_selected := 1\<rparr>)
            else ret ()) (\<lambda>_.
       bnd (get_gadget gadget) (\<lambda>g1.
       bnd (if g_num_selected g1 = 0 then strdup e (messages_get e ''Form_None'')
            else if g_num_selected g1 = 1
            then (case g_current g1 of
                    None \<Rightarrow> fail Abort
                  | Some i \<Rightarrow> strdup e (fo_text (g_items g1 ! i)))
            else strdup e (messages_get e ''Form_Many'')) (\<lambda>t.
       bnd (set_box inline_box (\<lambda>b. b\<lparr>b_text := Some t, b_length := length t\<rparr>)) (\<lambda>_.
       bnd (case current_form status of
              None \<Rightarrow> ret ()
            | Some fm \<Rightarrow> form_add_control fm gadget) (\<lambda>_.
       result (Some box) False status)))))))))))))))))))"

text \<open>\<^verbatim>\<open>atoi\<close>: the \<^verbatim>\<open>long\<close> of \<^verbatim>\<open>strtol\<close> converted to a 32-bit \<^verbatim>\<open>int\<close>.\<close>

definition atoi :: "string \<Rightarrow> int" where
  "atoi s = sint (word_of_int (strtol s) :: 32 word)"

text \<open>\<^verbatim>\<open>box_input_text\<close>; its result 0 makes the caller \<^verbatim>\<open>goto no_memory\<close>.\<close>

definition box_input_text ::
  "env \<Rightarrow> xmlNode \<Rightarrow> box_status \<Rightarrow> css_style \<Rightarrow> bool \<Rightarrow> nat cm" where
  "box_input_text e n status style password =
     bnd (box_create e (Some style) None None (st_id status)) (\<lambda>box.
     bnd (set_box box (\<lambda>b. b\<lparr>b_type := BOX_INLINE_BLOCK\<rparr>)) (\<lambda>_.
     bnd (form_new_control e (if password then GADGET_PASSWORD else GADGET_TEXTBOX)) (\<lambda>gadget.
     bnd (set_box box (\<lambda>b. b\<lparr>b_gadget := Some gadget\<rparr>)) (\<lambda>_.
     bnd (set_gadget gadget (\<lambda>g. g\<lparr>g_box := Some box,
            g_maxlength := (case xmlGetProp n ''maxlength'' of
                              None \<Rightarrow> 100
                            | Some s \<Rightarrow> atoi s)\<rparr>)) (\<lambda>_.
     bnd (strdup e (case xmlGetProp n ''value'' of Some s \<Rightarrow> s | None \<Rightarrow> [])) (\<lambda>v.
     bnd (strdup e v) (\<lambda>iv.
     bnd (set_gadget gadget (\<lambda>g. g\<lparr>g_value := Some v, g_initial_value := Some iv,
            g_length := length v\<rparr>)) (\<lambda>_.
     bnd (box_create e None None None None) (\<lambda>inline_container.
     bnd (set_box inline_container (\<lambda>b. b\<lparr>b_type := BOX_INLINE_CONTAINER\<rparr>)) (\<lambda>_.
     bnd (box_create e (Some style) None None None) (\<lambda>inline_box.
     bnd (set_box inline_box (\<lambda>b. b\<lparr>b_type := BOX_INLINE, b_style_clone := True\<rparr>)) (\<lambda>_.
     bnd (if password
          then bnd (alloc e) (\<lambda>_.
               set_box inline_box (\<lambda>b. b\<lparr>b_length := length v,
                 b_text := Some (replicate (length v) (CHR ''*''))\<rparr>))
          else bnd (cnv_space2nbsp e v) (\<lambda>t.
               set_box inline_box (\<lambda>b. b\<lparr>b_text := Some t, b_length := length t\<rparr>))) (\<lambda>_.
     bnd (box_add_child inline_container inline_box) (\<lambda>_.
     bnd (box_add_child box inline_container) (\<lambda>_.
     ret box)))))))))))))))"

text \<open>\<^verbatim>\<open>type && strcasecmp(type, s) == 0\<close>\<close>

definition type_is :: "string option \<Rightarrow> string \<Rightarrow> bool" where
  "type_is type s = (case type of None \<Rightarrow> False | Some t \<Rightarrow> strcasecmp_eq t s)"

definition box_button ::
  "env \<Rightarrow> xmlNode \<Rightarrow> box_status \<Rightarrow> css_style \<Rightarrow> (box_result \<times> box_status) cm" where
  "box_button e n status style =
     (let type = xmlGetProp n ''type'' in
      bnd (box_create e (Some style) None None (st_id status)) (\<lambda>box.
      bnd (set_box box (\<lambda>b. b\<lparr>b_type := BOX_INLINE_BLOCK\<rparr>)) (\<lambda>_.
      if type \<noteq> None \<and> \<not> type_is type ''submit'' \<and> \<not> type_is type ''reset''
      then result (Some box) True status
      else
        bnd (form_new_control e
               (if type = None \<or> type_is type ''submit''
                then GADGET_SUBMIT else GADGET_RESET)) (\<lambda>gadget.
        bnd (set_box box (\<lambda>b. b\<lparr>b_gadget := Some gadget\<rparr>)) (\<lambda>_.
        bnd (case current_form status of
               None \<Rightarrow> set_gadget gadget (\<lambda>g. g\<lparr>g_form := None\<rparr>)
             | Some fm \<Rightarrow> form_add_control fm gadget) (\<lambda>_.
        bnd (set_gadget gadget (\<lambda>g. g\<lparr>g_box := Some box\<rparr>)) (\<lambda>_.
        bnd (case xmlGetProp n ''name'' of
               None \<Rightarrow> ret ()
             | Some s \<Rightarrow>
                 bnd (strdup e s) (\<lambda>x. set_gadget gadget (\<lambda>g. g\<lparr>g_name := Some x\<rparr>))) (\<lambda>_.
        bnd (case xmlGetProp n ''value'' of
               None \<Rightarrow> ret ()
             | Some s \<Rightarrow>
                 bnd (strdup e s) (\<lambda>x. set_gadget gadget (\<lambda>g. g\<lparr>g_value := Some x\<rparr>))) (\<lambda>_.
        result (Some box) True status)))))))))"

text \<open>The code that the submit/reset branch and the button branch of \<^verbatim>\<open>box_input\<close>
  both run on the box of \<^verbatim>\<open>box_button\<close>: an inline container with one INLINE that
  shows the text.\<close>

definition input_button_text :: "env \<Rightarrow> css_style \<Rightarrow> nat \<Rightarrow> string \<Rightarrow> unit cm" where
  "input_button_text e style box txt =
     bnd (box_create e None None None None) (\<lambda>inline_container.
     bnd (set_box inline_container (\<lambda>b. b\<lparr>b_type := BOX_INLINE_CONTAINER\<rparr>)) (\<lambda>_.
     bnd (box_create e (Some style) None None None) (\<lambda>inline_box.
     bnd (set_box inline_box (\<lambda>b. b\<lparr>b_type := BOX_INLINE, b_style_clone := True\<rparr>)) (\<lambda>_.
     bnd (strdup e txt) (\<lambda>t.
     bnd (set_box inline_box (\<lambda>b. b\<lparr>b_text := Some t, b_length := length t\<rparr>)) (\<lambda>_.
     bnd (box_add_child inline_container inline_box) (\<lambda>_.
     box_add_child box inline_container)))))))"

text \<open>The end of \<^verbatim>\<open>box_input\<close>: \<^verbatim>\<open>if (gadget != 0) { ... }\<close>, then the result.\<close>

definition input_finish ::
  "env \<Rightarrow> xmlNode \<Rightarrow> box_status \<Rightarrow> nat option \<Rightarrow> nat option \<Rightarrow> (box_result \<times> box_status) cm"
  where
  "input_finish e n status box gadget =
     bnd (case gadget of
            None \<Rightarrow> ret ()
          | Some g \<Rightarrow>
              bnd (case current_form status of
                     None \<Rightarrow> set_gadget g (\<lambda>x. x\<lparr>g_form := None\<rparr>)
                   | Some fm \<Rightarrow> form_add_control fm g) (\<lambda>_.
              case xmlGetProp n ''name'' of
                None \<Rightarrow> ret ()
              | Some s \<Rightarrow>
                  bnd (strdup e s) (\<lambda>x. set_gadget g (\<lambda>y. y\<lparr>g_name := Some x\<rparr>)))) (\<lambda>_.
     result box False status)"

definition box_input ::
  "env \<Rightarrow> xmlNode \<Rightarrow> box_status \<Rightarrow> css_style \<Rightarrow> (box_result \<times> box_status) cm" where
  "box_input e n status style =
     (let type = xmlGetProp n ''type'' in
      if type_is type ''password'' then
        bnd (box_input_text e n status style True) (\<lambda>box.
        bnd (gets (\<lambda>c. b_gadget (boxes c ! box))) (\<lambda>gadget.
        bnd (case gadget of
               None \<Rightarrow> fail Abort
             | Some g \<Rightarrow> set_gadget g (\<lambda>x. x\<lparr>g_box := Some box\<rparr>)) (\<lambda>_.
        input_finish e n status (Some box) gadget)))
      else if type_is type ''file'' then
        bnd (box_create e (Some style) None None (st_id status)) (\<lambda>box.
        bnd (set_box box (\<lambda>b. b\<lparr>b_type := BOX_INLINE_BLOCK\<rparr>)) (\<lambda>_.
        bnd (form_new_control e GADGET_FILE) (\<lambda>gadget.
        bnd (set_box box (\<lambda>b. b\<lparr>b_gadget := Some gadget\<rparr>)) (\<lambda>_.
        bnd (set_gadget gadget (\<lambda>g. g\<lparr>g_box := Some box\<rparr>)) (\<lambda>_.
        input_finish e n status (Some box) (Some gadget))))))
      else if type_is type ''hidden'' then
        bnd (form_new_control e GADGET_HIDDEN) (\<lambda>gadget.
        bnd (case xmlGetProp n ''value'' of
               None \<Rightarrow> ret ()
             | Some s \<Rightarrow>
                 bnd (strdup e s) (\<lambda>v.
                 set_gadget gadget (\<lambda>g. g\<lparr>g_value := Some v, g_length := length v\<rparr>))) (\<lambda>_.
        input_finish e n status None (Some gadget)))
      else if type_is type ''checkbox'' \<or> type_is type ''radio'' then
        bnd (box_create e (Some style) None None (st_id status)) (\<lambda>box.
        bnd (form_new_control e
               (if (case type of
                      Some (ch # rest) \<Rightarrow> ch = CHR ''c'' \<or> ch = CHR ''C''
                    | _ \<Rightarrow> False)
                then GADGET_CHECKBOX else GADGET_RADIO)) (\<lambda>gadget.
        bnd (set_box box (\<lambda>b. b\<lparr>b_gadget := Some gadget\<rparr>)) (\<lambda>_.
        bnd (set_gadget gadget (\<lambda>g. g\<lparr>g_box := Some box,
               g_selected := xmlHasProp n ''checked''\<rparr>)) (\<lambda>_.
        bnd (case xmlGetProp n ''value'' of
               None \<Rightarrow> ret ()
             | Some s \<Rightarrow>
                 bnd (strdup e s) (\<lambda>v.
                 set_gadget gadget (\<lambda>g. g\<lparr>g_value := Some v, g_length := length v\<rparr>))) (\<lambda>_.
        input_finish e n status (Some box) (Some gadget))))))
      else if type_is type ''submit'' \<or> type_is type ''reset'' then
        bnd (box_button e n status style) (\<lambda>(r, status').
        case res_box r of
          None \<Rightarrow> fail Abort
        | Some box \<Rightarrow>
            bnd (gets (\<lambda>c. b_gadget (boxes c ! box))) (\<lambda>bg.
            case bg of
              None \<Rightarrow> fail Abort
            | Some g \<Rightarrow>
                bnd (get_gadget g) (\<lambda>gv.
                bnd (input_button_text e style box
                       (case g_value gv of
                          Some v \<Rightarrow> v
                        | None \<Rightarrow>
                            if g_type gv = GADGET_SUBMIT then messages_get e ''Form_Submit''
                            else messages_get e ''Form_Reset'')) (\<lambda>_.
                input_finish e n status (Some box) None))))
      else if type_is type ''button'' then
        bnd (box_button e n status style) (\<lambda>(r, status').
        case res_box r of
          None \<Rightarrow> fail Abort
        | Some box \<Rightarrow>
            bnd (input_button_text e style box
                   (case xmlGetProp n ''value'' of Some s \<Rightarrow> s | None \<Rightarrow> ''Button'')) (\<lambda>_.
            input_finish e n status (Some box) None))
      else if type_is type ''image'' then
        bnd (box_create e (Some style) None None (st_id status)) (\<lambda>box.
        bnd (form_new_control e GADGET_IMAGE) (\<lambda>gadget.
        bnd (set_box box (\<lambda>b. b\<lparr>b_gadget := Some gadget\<rparr>)) (\<lambda>_.
        bnd (set_gadget gadget (\<lambda>g. g\<lparr>g_box := Some box, g_type := GADGET_IMAGE\<rparr>)) (\<lambda>_.
        bnd (case xmlGetProp n ''src'' of
               None \<Rightarrow> ret ()
             | Some s \<Rightarrow>
                 bnd (gets base_url) (\<lambda>base.
                 case url_join e s base of
                   URL_FUNC_OK url \<Rightarrow>
                     if \<not> strcasecmp_eq url base
                     then bnd (gets available_width) (\<lambda>w.
                          bnd (html_fetch_object e url box True w 1000 False) (\<lambda>ok.
                          if ok then ret () else fail NoMemory))
                     else ret ()
                 | URL_FUNC_FAILED \<Rightarrow> ret ()
                 | URL_FUNC_NOMEM \<Rightarrow> ret ())) (\<lambda>_.
        input_finish e n status (Some box) (Some gadget))))))
      else
        bnd (box_input_text e n status style False) (\<lambda>box.
        bnd (gets (\<lambda>c. b_gadget (boxes c ! box))) (\<lambda>gadget.
        bnd (case gadget of
               None \<Rightarrow> fail Abort
             | Some g \<Rightarrow> set_gadget g (\<lambda>x. x\<lparr>g_box := Some box\<rparr>)) (\<lambda>_.
        input_finish e n status (Some box) gadget))))"

subsection \<open>Objects\<close>

text \<open>The search of \<^verbatim>\<open>plugin_decode\<close> for the movie parameter:
  \<^verbatim>\<open>for (pp = po->params; pp != 0 && strcasecmp(pp->name, "movie") != 0; pp = pp->next)\<close>.
  A parameter without a name is a NULL handed to \<^verbatim>\<open>strcasecmp\<close>.\<close>

fun find_movie :: "plugin_params list \<Rightarrow> error + plugin_params option" where
  "find_movie [] = Inr None"
| "find_movie (pp # pps) =
     (case pp_name pp of
        None \<Rightarrow> Inl Abort
      | Some nm \<Rightarrow> if strcasecmp_eq nm ''movie'' then Inr (Some pp) else find_movie pps)"

definition flash_clsid :: string where
  "flash_clsid = ''clsid:D27CDB6E-AE6D-11cf-96B8-444553540000''"

text \<open>The part of \<^verbatim>\<open>plugin_decode\<close> that finds the URL of the object from
  \<^verbatim>\<open>data\<close>, \<^verbatim>\<open>classid\<close> and the parameters: the parameters (the Flash branch resets
  the codebase) and the URL, or no URL where the function returns false.\<close>

definition plugin_url ::
  "env \<Rightarrow> string \<Rightarrow> object_params \<Rightarrow> error + (object_params \<times> string option)" where
  "plugin_url e base po =
     (case po_data po of
        Some d \<Rightarrow>
          (case po_codebase po of
             None \<Rightarrow> Inl Abort
           | Some cb \<Rightarrow>
               (case url_join e d cb of
                  URL_FUNC_OK url \<Rightarrow> Inr (po, Some url)
                | URL_FUNC_FAILED \<Rightarrow> Inr (po, None)
                | URL_FUNC_NOMEM \<Rightarrow> Inr (po, None)))
      | None \<Rightarrow>
          (case po_classid po of
             None \<Rightarrow> Inr (po, None)
           | Some classid \<Rightarrow>
               if strncasecmp_eq classid ''clsid:'' 6 then
                 if strcasecmp_eq classid flash_clsid then
                   (case find_movie (po_params po) of
                      Inl err \<Rightarrow> Inl err
                    | Inr None \<Rightarrow> Inr (po, None)
                    | Inr (Some pp) \<Rightarrow>
                        (case (pp_value pp, po_basehref po) of
                           (Some v, Some bh) \<Rightarrow>
                             (case url_join e v bh of
                                URL_FUNC_OK url \<Rightarrow>
                                  (case url_join e ''./'' base of
                                     URL_FUNC_OK codebase \<Rightarrow>
                                       Inr (po\<lparr>po_codebase := Some codebase\<rparr>, Some url)
                                   | URL_FUNC_FAILED \<Rightarrow> Inr (po, None)
                                   | URL_FUNC_NOMEM \<Rightarrow> Inr (po, None))
                              | URL_FUNC_FAILED \<Rightarrow> Inr (po, None)
                              | URL_FUNC_NOMEM \<Rightarrow> Inr (po, None))
                         | (None, bh) \<Rightarrow> Inl Abort
                         | (Some v, None) \<Rightarrow> Inl Abort))
                 else Inr (po, None)
               else
                 (case po_codebase po of
                    None \<Rightarrow> Inl Abort
                  | Some cb \<Rightarrow>
                      (case url_join e classid cb of
                         URL_FUNC_OK url \<Rightarrow> Inr (po, Some url)
                       | URL_FUNC_FAILED \<Rightarrow> Inr (po, None)
                       | URL_FUNC_NOMEM \<Rightarrow> Inr (po, None)))))"

text \<open>\<^verbatim>\<open>plugin_decode\<close>: false if the object could not be handled. The \<^verbatim>\<open>strdup\<close>
  of \<^verbatim>\<open>basehref\<close> is not checked by the code.\<close>

definition plugin_decode :: "env \<Rightarrow> nat \<Rightarrow> bool cm" where
  "plugin_decode e box =
     bnd (gets (\<lambda>c. b_object_params (boxes c ! box))) (\<lambda>pox.
     case pox of
       None \<Rightarrow> fail Abort
     | Some po \<Rightarrow>
         bnd (gets base_url) (\<lambda>base.
         case url_join e (case po_codebase po of None \<Rightarrow> ''./'' | Some cb \<Rightarrow> cb) base of
           URL_FUNC_FAILED \<Rightarrow> ret False
         | URL_FUNC_NOMEM \<Rightarrow> ret False
         | URL_FUNC_OK codebase \<Rightarrow>
             bnd (try_alloc e) (\<lambda>ok.
             case plugin_url e base
                    (po\<lparr>po_codebase := Some codebase,
                        po_basehref := (if ok then Some base else None)\<rparr>) of
               Inl err \<Rightarrow> fail err
             | Inr (po2, target) \<Rightarrow>
                 bnd (set_box box (\<lambda>b. b\<lparr>b_object_params := Some po2\<rparr>)) (\<lambda>_.
                 case target of
                   None \<Rightarrow> ret False
                 | Some url \<Rightarrow>
                     if (case po_type po2 of
                           None \<Rightarrow> False
                         | Some ty \<Rightarrow> content_lookup_other e ty)
                     then ret False
                     else if (case po_codetype po2 of
                                None \<Rightarrow> False
                              | Some ty \<Rightarrow> content_lookup_other e ty)
                     then ret False
                     else if strcasecmp_eq url base then ret False
                     else html_fetch_object e url box False 1000 1000 False))))"

text \<open>The parameter loop of \<^verbatim>\<open>box_object\<close>: the \<^verbatim>\<open>param\<close> children up to the first
  other element, each put at the head of the list.\<close>

definition new_param :: "env \<Rightarrow> xmlNode \<Rightarrow> plugin_params cm" where
  "new_param e c =
     bnd (alloc e) (\<lambda>_.
     bnd (strdup_opt e (xmlGetProp c ''name'')) (\<lambda>nm.
     bnd (strdup_opt e (xmlGetProp c ''value'')) (\<lambda>v.
     bnd (strdup_opt e (xmlGetProp c ''type'')) (\<lambda>ty.
     bnd (strdup e (case xmlGetProp c ''valuetype'' of Some s \<Rightarrow> s | None \<Rightarrow> ''data'')) (\<lambda>vt.
     ret \<lparr>pp_name = nm, pp_value = v, pp_type = ty, pp_valuetype = Some vt\<rparr>)))))"

fun object_param_children ::
  "env \<Rightarrow> xmlNode list \<Rightarrow> plugin_params list \<Rightarrow> plugin_params list cm" where
  "object_param_children e [] params = ret params"
| "object_param_children e (c # cs) params =
     (if \<not> is_element c then object_param_children e cs params
      else if node_name c = ''param''
      then bnd (new_param e c) (\<lambda>pp. object_param_children e cs (pp # params))
      else ret params)"

definition box_object ::
  "env \<Rightarrow> xmlNode \<Rightarrow> box_status \<Rightarrow> css_style \<Rightarrow> (box_result \<times> box_status) cm" where
  "box_object e n status style =
     bnd (alloc e) (\<lambda>_.
     bnd (box_create e (Some style) (st_href status) None (st_id status)) (\<lambda>box.
     bnd (strdup_opt e (xmlGetProp n ''data'')) (\<lambda>data.
     bnd (case xmlGetProp n ''usemap'' of
            None \<Rightarrow> ret ()
          | Some m \<Rightarrow>
              bnd (strdup e (usemap_name m)) (\<lambda>u.
              set_box box (\<lambda>b. b\<lparr>b_usemap := Some u\<rparr>))) (\<lambda>_.
     bnd (strdup_opt e (xmlGetProp n ''type'')) (\<lambda>ty.
     bnd (strdup_opt e (xmlGetProp n ''codetype'')) (\<lambda>codetype.
     bnd (strdup_opt e (xmlGetProp n ''codebase'')) (\<lambda>codebase.
     bnd (strdup_opt e (xmlGetProp n ''classid'')) (\<lambda>classid.
     bnd (object_param_children e (node_children n) []) (\<lambda>params.
     bnd (set_box box (\<lambda>b. b\<lparr>b_object_params :=
            Some \<lparr>po_data = data, po_type = ty, po_codetype = codetype,
                  po_codebase = codebase, po_classid = classid, po_basehref = None,
                  po_params = params\<rparr>\<rparr>)) (\<lambda>_.
     bnd (plugin_decode e box) (\<lambda>handled.
     if handled then result (Some box) False status
     else result (Some box) True status)))))))))))"

text \<open>The attribute loop of \<^verbatim>\<open>box_embed\<close>: a parameter structure is allocated for
  every attribute; one other than \<^verbatim>\<open>src\<close> that has a value is put at the head of the
  list.\<close>

fun embed_attributes ::
  "env \<Rightarrow> (string \<times> string option) list \<Rightarrow> plugin_params list \<Rightarrow> plugin_params list cm" where
  "embed_attributes e [] params = ret params"
| "embed_attributes e (a # as) params =
     bnd (alloc e) (\<lambda>_.
     case snd a of
       None \<Rightarrow> embed_attributes e as params
     | Some v \<Rightarrow>
         if strcasecmp_eq (fst a) ''src'' then embed_attributes e as params
         else
           bnd (try_alloc e) (\<lambda>ok1.
           bnd (try_alloc e) (\<lambda>ok2.
           bnd (try_alloc e) (\<lambda>ok3.
           if \<not> ok1 \<or> \<not> ok2 \<or> \<not> ok3 then fail NoMemory
           else embed_attributes e as
                  (\<lparr>pp_name = Some (fst a), pp_value = Some v, pp_type = None,
                    pp_valuetype = Some ''data''\<rparr> # params)))))"

definition box_embed ::
  "env \<Rightarrow> xmlNode \<Rightarrow> box_status \<Rightarrow> css_style \<Rightarrow> (box_result \<times> box_status) cm" where
  "box_embed e n status style =
     bnd (alloc e) (\<lambda>_.
     bnd (box_create e (Some style) (st_href status) None (st_id status)) (\<lambda>box.
     bnd (strdup_opt e (xmlGetProp n ''src'')) (\<lambda>data.
     bnd (embed_attributes e (node_properties n) []) (\<lambda>params.
     bnd (set_box box (\<lambda>b. b\<lparr>b_object_params :=
            Some \<lparr>po_data = data, po_type = None, po_codetype = None, po_codebase = None,
                  po_classid = None, po_basehref = None, po_params = params\<rparr>\<rparr>)) (\<lambda>_.
     bnd (plugin_decode e box) (\<lambda>handled.
     result (Some box) False status))))))"

definition box_iframe ::
  "env \<Rightarrow> xmlNode \<Rightarrow> box_status \<Rightarrow> css_style \<Rightarrow> (box_result \<times> box_status) cm" where
  "box_iframe e n status style =
     bnd (alloc e) (\<lambda>_.
     bnd (box_create e (Some style) (st_href status) None (st_id status)) (\<lambda>box.
     bnd (strdup_opt e (xmlGetProp n ''src'')) (\<lambda>data.
     bnd (set_box box (\<lambda>b. b\<lparr>b_object_params :=
            Some \<lparr>po_data = data, po_type = None, po_codetype = None, po_codebase = None,
                  po_classid = None, po_basehref = None, po_params = []\<rparr>\<rparr>)) (\<lambda>_.
     bnd (plugin_decode e box) (\<lambda>handled.
     result (Some box) False status)))))"

subsection \<open>Framesets\<close>

text \<open>\<^verbatim>\<open>box_parse_multi_lengths\<close>: parse a multi-length-list, as defined by HTML 4.01.
  The result is the array, whose length is \<^verbatim>\<open>*count\<close>; 0 on memory exhaustion is
  \<open>NoMemory\<close>.\<close>

definition box_parse_multi_lengths :: "env \<Rightarrow> string \<Rightarrow> box_multi_length list cm" where
  "box_parse_multi_lengths e s =
     bnd (alloc e) (\<lambda>_.
     ret (multi_length_entries (strtof e) (multi_length_count s 1) s))"

definition css_duplicate_style :: "env \<Rightarrow> css_style \<Rightarrow> css_style cm" where
  "css_duplicate_style e style = bnd (alloc e) (\<lambda>_. ret style)"

text \<open>The conversion of a \<^verbatim>\<open>float\<close> to \<^verbatim>\<open>int\<close> in
  \<^verbatim>\<open>object_width = col_width[col].value\<close> truncates towards zero. C leaves the
  conversion undefined when the truncated value is not a 32-bit \<^verbatim>\<open>int\<close> or the value
  is not finite; the conversion then gives \<^verbatim>\<open>INT_MIN\<close>, as the conversion instruction
  does.\<close>

definition INT_MIN :: int where
  "INT_MIN = - 2147483648"

definition INT_MAX :: int where
  "INT_MAX = 2147483647"

fun float_to_int :: "cfloat \<Rightarrow> int" where
  "float_to_int (Finite r) =
     (let t = (if 0 \<le> r then \<lfloor>r\<rfloor> else \<lceil>r\<rceil>)
      in if INT_MIN \<le> t \<and> t \<le> INT_MAX then t else INT_MIN)"
| "float_to_int PosInf = INT_MIN"
| "float_to_int NegInf = INT_MIN"
| "float_to_int NaN = INT_MIN"

definition frameset_column :: "box_multi_length \<Rightarrow> column" where
  "frameset_column l =
     \<lparr>cl_type = (case ml_type l of
                    LENGTH_PX \<Rightarrow> COLUMN_WIDTH_FIXED
                  | LENGTH_PERCENT \<Rightarrow> COLUMN_WIDTH_PERCENT
                  | LENGTH_RELATIVE \<Rightarrow> COLUMN_WIDTH_RELATIVE),
      cl_width = ml_value l, cl_min = 1, cl_max = 10000\<rparr>"

text \<open>\<^verbatim>\<open>while (c && !(c->type == XML_ELEMENT_NODE && (strcmp(c->name, "frame") == 0 ||
  strcmp(c->name, "frameset") == 0))) c = c->next;\<close>\<close>

definition is_frame :: "xmlNode \<Rightarrow> bool" where
  "is_frame c = (is_element c \<and> (node_name c = ''frame'' \<or> node_name c = ''frameset''))"

definition frameset_skip :: "xmlNode list \<Rightarrow> xmlNode list" where
  "frameset_skip cs = dropWhile (\<lambda>c. \<not> is_frame c) cs"

text \<open>The body of the column loop for the child \<open>c\<close> in column \<open>col\<close>: the cell, then
  the box of a nested frameset (made by \<open>self\<close>, which is \<^verbatim>\<open>box_frameset\<close>) or the
  object box of a frame and its fetch.\<close>

definition frameset_cell ::
  "env \<Rightarrow> (xmlNode \<Rightarrow> box_status \<Rightarrow> css_style \<Rightarrow> (box_result \<times> box_status) cm) \<Rightarrow>
   box_status \<Rightarrow> css_style \<Rightarrow> box_multi_length list option \<Rightarrow> nat \<Rightarrow> nat \<Rightarrow> xmlNode \<Rightarrow>
   unit cm" where
  "frameset_cell e self status style col_width row_box col c =
     bnd (gets available_width) (\<lambda>aw.
     (let is_px = (case col_width of
                     None \<Rightarrow> False
                   | Some cw \<Rightarrow> ml_type (cw ! col) = LENGTH_PX);
          object_width = (case col_width of
                            None \<Rightarrow> aw
                          | Some cw \<Rightarrow> if is_px then float_to_int (ml_value (cw ! col)) else aw)
      in
      bnd (css_duplicate_style e style) (\<lambda>cell_style.
      bnd (box_create e (Some cell_style) None None None) (\<lambda>cell_box.
      bnd (set_box cell_box (\<lambda>b. b\<lparr>b_type := BOX_TABLE_CELL\<rparr>)) (\<lambda>_.
      bnd (box_add_child row_box cell_box) (\<lambda>_.
      if node_name c = ''frameset'' then
        bnd (self c status style) (\<lambda>(r, status').
        case res_box r of
          None \<Rightarrow> fail Abort
        | Some rb \<Rightarrow>
            bnd (set_box rb (\<lambda>b. b\<lparr>b_style_clone := True\<rparr>)) (\<lambda>_.
            box_add_child cell_box rb))
      else
        bnd (css_duplicate_style e style) (\<lambda>object_style.
        bnd (box_create e (Some object_style) None None None) (\<lambda>object_box.
        bnd (set_box object_box (\<lambda>b. b\<lparr>b_type := BOX_BLOCK\<rparr>)) (\<lambda>_.
        bnd (box_add_child cell_box object_box) (\<lambda>_.
        case xmlGetProp c ''src'' of
          None \<Rightarrow> ret ()
        | Some s \<Rightarrow>
            bnd (gets base_url) (\<lambda>base.
            case url_join e (strip s) base of
              URL_FUNC_FAILED \<Rightarrow> ret ()
            | URL_FUNC_NOMEM \<Rightarrow> ret ()
            | URL_FUNC_OK url \<Rightarrow>
                if strcasecmp_eq url base then ret ()
                else
                  bnd (html_fetch_object e url object_box False object_width 1000 False)
                    (\<lambda>ok. if ok then ret () else fail NoMemory))))))))))))"

text \<open>The column loop \<^verbatim>\<open>for (col = 0; c && col != cols; col++)\<close> with \<open>k\<close> rounds to
  go, and the row loop \<^verbatim>\<open>for (row = 0; c && row != rows; row++)\<close>; \<open>cs\<close> is the child
  \<open>c\<close> and its later siblings, and the column loop returns where it left \<open>c\<close>.\<close>

fun frameset_cols ::
  "env \<Rightarrow> (xmlNode \<Rightarrow> box_status \<Rightarrow> css_style \<Rightarrow> (box_result \<times> box_status) cm) \<Rightarrow>
   box_status \<Rightarrow> css_style \<Rightarrow> box_multi_length list option \<Rightarrow> nat \<Rightarrow> nat \<Rightarrow> nat \<Rightarrow>
   xmlNode list \<Rightarrow> xmlNode list cm" where
  "frameset_cols e self status style col_width row_box col 0 cs = ret cs"
| "frameset_cols e self status style col_width row_box col (Suc k) cs =
     (case frameset_skip cs of
        [] \<Rightarrow> ret []
      | c # rest \<Rightarrow>
          bnd (frameset_cell e self status style col_width row_box col c) (\<lambda>_.
          frameset_cols e self status style col_width row_box (Suc col) k rest))"

fun frameset_rows ::
  "env \<Rightarrow> (xmlNode \<Rightarrow> box_status \<Rightarrow> css_style \<Rightarrow> (box_result \<times> box_status) cm) \<Rightarrow>
   box_status \<Rightarrow> css_style \<Rightarrow> box_multi_length list option \<Rightarrow> nat \<Rightarrow> nat \<Rightarrow> nat \<Rightarrow>
   xmlNode list \<Rightarrow> unit cm" where
  "frameset_rows e self status style col_width box cols 0 cs = ret ()"
| "frameset_rows e self status style col_width box cols (Suc k) cs =
     (if cs = [] then ret ()
      else
        bnd (css_duplicate_style e style) (\<lambda>row_style.
        bnd (box_create e (Some row_style) None None None) (\<lambda>row_box.
        bnd (set_box row_box (\<lambda>b. b\<lparr>b_type := BOX_TABLE_ROW\<rparr>)) (\<lambda>_.
        bnd (box_add_child box row_box) (\<lambda>_.
        bnd (frameset_cols e self status style col_width row_box 0 cols cs) (\<lambda>cs'.
        frameset_rows e self status style col_width box cols k cs'))))))"

text \<open>\<^verbatim>\<open>box_frameset\<close> with its recursive call passed in as \<open>self\<close>.\<close>

definition box_frameset_body ::
  "env \<Rightarrow> (xmlNode \<Rightarrow> box_status \<Rightarrow> css_style \<Rightarrow> (box_result \<times> box_status) cm) \<Rightarrow>
   xmlNode \<Rightarrow> box_status \<Rightarrow> css_style \<Rightarrow> (box_result \<times> box_status) cm" where
  "box_frameset_body e self n status style =
     bnd (box_create e (Some style) None (st_title status) (st_id status)) (\<lambda>box.
     bnd (set_box box (\<lambda>b. b\<lparr>b_type := BOX_TABLE\<rparr>)) (\<lambda>_.
     bnd (case xmlGetProp n ''rows'' of
            None \<Rightarrow> ret None
          | Some s \<Rightarrow> bnd (box_parse_multi_lengths e s) (\<lambda>l. ret (Some l))) (\<lambda>row_height.
     bnd (case xmlGetProp n ''cols'' of
            None \<Rightarrow> ret None
          | Some s \<Rightarrow> bnd (box_parse_multi_lengths e s) (\<lambda>l. ret (Some l))) (\<lambda>col_width.
     (let rows = (case row_height of None \<Rightarrow> 1 | Some l \<Rightarrow> length l);
          cols = (case col_width of None \<Rightarrow> 1 | Some l \<Rightarrow> length l)
      in
      bnd (set_box box (\<lambda>b. b\<lparr>b_min_width := 1, b_max_width := 10000\<rparr>)) (\<lambda>_.
      bnd (alloc e) (\<lambda>_.
      bnd (set_box box (\<lambda>b. b\<lparr>b_col :=
             (case col_width of
                None \<Rightarrow> [\<lparr>cl_type = COLUMN_WIDTH_RELATIVE, cl_width = Finite 1,
                          cl_min = 1, cl_max = 10000\<rparr>]
              | Some cw \<Rightarrow> map frameset_column cw)\<rparr>)) (\<lambda>_.
      bnd (frameset_rows e self status style col_width box cols rows (node_children n)) (\<lambda>_.
      result (Some box) False status)))))))))"

lemma bnd_cong: "m = m' \<Longrightarrow> (\<And>x. f x = f' x) \<Longrightarrow> bnd m f = bnd m' f'"
  by (auto simp: bnd_def fun_eq_iff split: sum.splits)

lemma frameset_cell_cong:
  "self c = self' c \<Longrightarrow>
   frameset_cell e self status style col_width row_box col c =
   frameset_cell e self' status style col_width row_box col c"
  by (simp add: frameset_cell_def cong: if_cong)

lemma set_frameset_skip: "frameset_skip cs = c # rest \<Longrightarrow> c \<in> set cs \<and> set rest \<subseteq> set cs"
  by (metis frameset_skip_def list.set_intros(1) set_dropWhileD set_subset_Cons subsetI
      subset_trans)

lemma frameset_cols_cong:
  "(\<And>c. c \<in> set cs \<Longrightarrow> self c = self' c) \<Longrightarrow>
   frameset_cols e self status style col_width row_box col k cs =
   frameset_cols e self' status style col_width row_box col k cs"
proof (induction k arbitrary: col cs)
  case 0
  show ?case by simp
next
  case (Suc k)
  show ?case
  proof (cases "frameset_skip cs")
    case Nil
    then show ?thesis by simp
  next
    case (Cons c rest)
    have mem: "c \<in> set cs" "set rest \<subseteq> set cs"
      using set_frameset_skip [OF Cons] by auto
    have "frameset_cols e self status style col_width row_box (Suc col) k rest =
          frameset_cols e self' status style col_width row_box (Suc col) k rest"
      using Suc.IH [of rest "Suc col"] Suc.prems mem by blast
    moreover have "frameset_cell e self status style col_width row_box col c =
          frameset_cell e self' status style col_width row_box col c"
      using frameset_cell_cong [of self c self'] Suc.prems mem by simp
    ultimately show ?thesis
      using Cons by simp
  qed
qed

lemma bnd_cong_state:
  "m c = m' c \<Longrightarrow> (\<And>x c'. m' c = Inr (x, c') \<Longrightarrow> f x c' = f' x c') \<Longrightarrow>
   bnd m f c = bnd m' f' c"
  by (auto simp: bnd_def split: sum.splits)

lemma frameset_cols_rest:
  "frameset_cols e self status style col_width row_box col k cs c0 = Inr (cs', c1) \<Longrightarrow>
   set cs' \<subseteq> set cs"
proof (induction k arbitrary: col cs c0)
  case 0
  then show ?case by (simp add: ret_def)
next
  case (Suc k)
  show ?case
  proof (cases "frameset_skip cs")
    case Nil
    then show ?thesis using Suc.prems by (simp add: ret_def)
  next
    case (Cons c rest)
    have mem: "set rest \<subseteq> set cs"
      using set_frameset_skip [OF Cons] by auto
    from Suc.prems Cons obtain c2 where
      "frameset_cols e self status style col_width row_box (Suc col) k rest c2 = Inr (cs', c1)"
      by (auto simp: bnd_def split: sum.splits)
    then have "set cs' \<subseteq> set rest"
      by (rule Suc.IH)
    then show ?thesis using mem by blast
  qed
qed

lemma frameset_rows_cong:
  "(\<And>c. c \<in> set cs \<Longrightarrow> self c = self' c) \<Longrightarrow>
   frameset_rows e self status style col_width box cols k cs c0 =
   frameset_rows e self' status style col_width box cols k cs c0"
proof (induction k arbitrary: cs c0)
  case 0
  show ?case by simp
next
  case (Suc k)
  show ?case
  proof (cases "cs = []")
    case True
    then show ?thesis by simp
  next
    case False
    have cols: "\<And>row_box. frameset_cols e self status style col_width row_box 0 cols cs =
        frameset_cols e self' status style col_width row_box 0 cols cs"
      using frameset_cols_cong [of cs self self'] Suc.prems by blast
    have rows: "\<And>row_box cs' c1 c2.
        frameset_cols e self' status style col_width row_box 0 cols cs c1 = Inr (cs', c2) \<Longrightarrow>
        frameset_rows e self status style col_width box cols k cs' c2 =
        frameset_rows e self' status style col_width box cols k cs' c2"
    proof -
      fix row_box cs' c1 c2
      assume "frameset_cols e self' status style col_width row_box 0 cols cs c1 = Inr (cs', c2)"
      then have "set cs' \<subseteq> set cs"
        by (rule frameset_cols_rest)
      then show "frameset_rows e self status style col_width box cols k cs' c2 =
        frameset_rows e self' status style col_width box cols k cs' c2"
        using Suc.IH [of cs' c2] Suc.prems by blast
    qed
    show ?thesis
      using False by (simp add: cols) (intro bnd_cong_state refl rows)
  qed
qed

lemma box_frameset_body_cong [fundef_cong]:
  "e = e' \<Longrightarrow> n = n' \<Longrightarrow> status = status' \<Longrightarrow> style = style' \<Longrightarrow>
   (\<And>c. c \<in> set (node_children n') \<Longrightarrow> self c = self' c) \<Longrightarrow>
   box_frameset_body e self n status style = box_frameset_body e' self' n' status' style'"
proof -
  assume eqs: "e = e'" "n = n'" "status = status'" "style = style'"
    and self: "\<And>c. c \<in> set (node_children n') \<Longrightarrow> self c = self' c"
  have "\<And>col_width box cols k.
      frameset_rows e' self status' style' col_width box cols k (node_children n') =
      frameset_rows e' self' status' style' col_width box cols k (node_children n')"
    using frameset_rows_cong [of "node_children n'" self self'] self by blast
  then show ?thesis
    by (simp add: box_frameset_body_def eqs)
qed

lemma node_children_size: "c \<in> set (node_children n) \<Longrightarrow> size c < size n"
  by (cases n) (auto simp: less_Suc_eq_le size_list_estimation')

function box_frameset ::
  "env \<Rightarrow> xmlNode \<Rightarrow> box_status \<Rightarrow> css_style \<Rightarrow> (box_result \<times> box_status) cm" where
  "box_frameset e n status style =
     box_frameset_body e (\<lambda>c. box_frameset e c) n status style"
  by pat_completeness auto
termination
  by (relation "measure (\<lambda>(e, n, status, style). size n)")
    (auto dest: node_children_size)

subsection \<open>Construction\<close>

text \<open>The special case element table. \<^verbatim>\<open>bsearch\<close> with \<^verbatim>\<open>strcmp\<close> finds the entry
  whose name is the element's.\<close>

definition element_table ::
  "string \<Rightarrow> (env \<Rightarrow> xmlNode \<Rightarrow> box_status \<Rightarrow> css_style \<Rightarrow> (box_result \<times> box_status) cm) option"
  where
  "element_table name =
     (if name = ''a'' then Some box_a
      else if name = ''body'' then Some box_body
      else if name = ''br'' then Some box_br
      else if name = ''button'' then Some box_button
      else if name = ''embed'' then Some box_embed
      else if name = ''form'' then Some box_form
      else if name = ''frameset'' then Some box_frameset
      else if name = ''iframe'' then Some box_iframe
      else if name = ''img'' then Some box_image
      else if name = ''input'' then Some box_input
      else if name = ''object'' then Some box_object
      else if name = ''select'' then Some box_select
      else if name = ''textarea'' then Some box_textarea
      else None)"

text \<open>Mapping from CSS display to box type. The entry for \<^verbatim>\<open>CSS_DISPLAY_INHERIT\<close> is
  written 0 in the table. Modelled from the spec: the declaration of \<^verbatim>\<open>box_type\<close> in
  render/box.h is not under src/; the spec lists the kinds with Block first, so 0 is
  \<open>BOX_BLOCK\<close>. \<^verbatim>\<open>CSS_DISPLAY_NONE\<close> lies past the end of the table, and
  \<^verbatim>\<open>box_construct_element\<close> has returned before it would look it up.\<close>

fun box_map :: "css_display \<Rightarrow> box_type" where
  "box_map CSS_DISPLAY_INHERIT = BOX_BLOCK"
| "box_map CSS_DISPLAY_INLINE = BOX_INLINE"
| "box_map CSS_DISPLAY_BLOCK = BOX_BLOCK"
| "box_map CSS_DISPLAY_LIST_ITEM = BOX_BLOCK"
| "box_map CSS_DISPLAY_RUN_IN = BOX_INLINE"
| "box_map CSS_DISPLAY_INLINE_BLOCK = BOX_INLINE_BLOCK"
| "box_map CSS_DISPLAY_TABLE = BOX_TABLE"
| "box_map CSS_DISPLAY_INLINE_TABLE = BOX_TABLE"
| "box_map CSS_DISPLAY_TABLE_ROW_GROUP = BOX_TABLE_ROW_GROUP"
| "box_map CSS_DISPLAY_TABLE_HEADER_GROUP = BOX_TABLE_ROW_GROUP"
| "box_map CSS_DISPLAY_TABLE_FOOTER_GROUP = BOX_TABLE_ROW_GROUP"
| "box_map CSS_DISPLAY_TABLE_ROW = BOX_TABLE_ROW"
| "box_map CSS_DISPLAY_TABLE_COLUMN_GROUP = BOX_INLINE"
| "box_map CSS_DISPLAY_TABLE_COLUMN = BOX_INLINE"
| "box_map CSS_DISPLAY_TABLE_CELL = BOX_TABLE_CELL"
| "box_map CSS_DISPLAY_TABLE_CAPTION = BOX_INLINE"
| "box_map CSS_DISPLAY_NONE = BOX_INLINE"

text \<open>\<^verbatim>\<open>box_text_transform\<close>: apply the CSS text-transform property to the first
  \<open>len\<close> characters of a buffer, for its ASCII characters.\<close>

fun capitalize :: "bool \<Rightarrow> string \<Rightarrow> string" where
  "capitalize up [] = []"
| "capitalize up (c # cs) =
     (let c' = (if up then toupper c else c) in c' # capitalize (isspace c') cs)"

definition box_text_transform :: "string \<Rightarrow> nat \<Rightarrow> css_text_transform \<Rightarrow> string" where
  "box_text_transform s len tt =
     (if len = 0 then s
      else case tt of
        CSS_TEXT_TRANSFORM_UPPERCASE \<Rightarrow> map toupper (take len s) @ drop len s
      | CSS_TEXT_TRANSFORM_LOWERCASE \<Rightarrow> map tolower (take len s) @ drop len s
      | CSS_TEXT_TRANSFORM_CAPITALIZE \<Rightarrow> capitalize True (take len s) @ drop len s
      | CSS_TEXT_TRANSFORM_NONE \<Rightarrow> s
      | CSS_TEXT_TRANSFORM_INHERIT \<Rightarrow> s)"

text \<open>"This is the first inline node: make a container": the code that
  \<^verbatim>\<open>box_construct_element\<close> and \<^verbatim>\<open>box_construct_text\<close> run when
  \<^verbatim>\<open>*inline_container\<close> is 0; the result is \<^verbatim>\<open>*inline_container\<close> afterwards.\<close>

definition make_container :: "env \<Rightarrow> nat \<Rightarrow> nat option \<Rightarrow> nat cm" where
  "make_container e parent inline_container =
     (case inline_container of
        Some i \<Rightarrow> ret i
      | None \<Rightarrow>
          bnd (box_create e None None None None) (\<lambda>i.
          bnd (set_box i (\<lambda>b. b\<lparr>b_type := BOX_INLINE_CONTAINER\<rparr>)) (\<lambda>_.
          bnd (box_add_child parent i) (\<lambda>_.
          ret i))))"

text \<open>The loop of \<^verbatim>\<open>box_construct_text\<close> for white-space: pre, from \<open>current\<close> on; the
  result is \<^verbatim>\<open>*inline_container\<close> at the end.\<close>

function pre_lines ::
  "env \<Rightarrow> css_style \<Rightarrow> box_status \<Rightarrow> nat \<Rightarrow> nat option \<Rightarrow> string \<Rightarrow> nat option cm" where
  "pre_lines e parent_style status parent inline_container current =
     (let len = strcspn_crlf current in
      bnd (make_container e parent inline_container) (\<lambda>i.
      bnd (box_create e (Some parent_style) (st_href status) None None) (\<lambda>box.
      bnd (set_box box (\<lambda>b. b\<lparr>b_type := BOX_INLINE, b_style_clone := True\<rparr>)) (\<lambda>_.
      bnd (strdup e (take len current)) (\<lambda>t.
      bnd (set_box box (\<lambda>b. b\<lparr>b_text := Some t, b_length := length t\<rparr>)) (\<lambda>_.
      bnd (box_add_child i box) (\<lambda>_.
      case drop len current of
        [] \<Rightarrow> ret (Some i)
      | x # rest \<Rightarrow>
          if skip_eol (x # rest) = [] then ret None
          else pre_lines e parent_style status parent None (skip_eol (x # rest)))))))))"
  by pat_completeness auto
termination
  by (relation "measure (\<lambda>(e, parent_style, status, parent, ic, current). length current)")
    (auto dest: skip_eol_shorter simp del: skip_eol.simps)

text \<open>\<^verbatim>\<open>box_construct_text\<close>: construct the box tree for an XML text node with content
  \<open>content\<close>. The result is the new current inline container.\<close>

definition box_construct_text ::
  "env \<Rightarrow> string \<Rightarrow> css_style \<Rightarrow> nat \<Rightarrow> nat option \<Rightarrow> box_status \<Rightarrow> nat option cm" where
  "box_construct_text e content parent_style parent inline_container status =
     (if white_space parent_style = CSS_WHITE_SPACE_NORMAL \<or>
         white_space parent_style = CSS_WHITE_SPACE_NOWRAP
      then
        bnd (squash_whitespace e content) (\<lambda>text.
        if text = '' '' then
          (case inline_container of
             None \<Rightarrow> ret inline_container
           | Some i \<Rightarrow>
               bnd (gets (\<lambda>c. b_children (boxes c ! i))) (\<lambda>ch.
               if ch = [] then fail Abort
               else bnd (set_box (last ch) (\<lambda>b. b\<lparr>b_space := True\<rparr>)) (\<lambda>_.
                    ret inline_container)))
        else
          bnd (make_container e parent inline_container) (\<lambda>i.
          bnd (box_create e (Some parent_style) (st_href status) None None) (\<lambda>box.
          bnd (set_box box (\<lambda>b. b\<lparr>b_text := Some text, b_style_clone := True,
                 b_length := length text\<rparr>)) (\<lambda>_.
          bnd (if 1 < length text \<and> last text = CHR '' ''
               then set_box box (\<lambda>b. b\<lparr>b_space := True, b_length := b_length b - 1\<rparr>)
               else ret ()) (\<lambda>_.
          bnd (if text_transform parent_style \<noteq> CSS_TEXT_TRANSFORM_NONE
               then set_box box (\<lambda>b. b\<lparr>b_text := Some (box_text_transform text (b_length b)
                                                          (text_transform parent_style))\<rparr>)
               else ret ()) (\<lambda>_.
          bnd (gets (\<lambda>c. boxes c ! box)) (\<lambda>b1.
          bnd (case b_text b1 of
                 None \<Rightarrow> fail Abort
               | Some text1 \<Rightarrow>
                   if white_space parent_style = CSS_WHITE_SPACE_NOWRAP \<and>
                      CHR '' '' \<in> set (take (b_length b1) text1)
                   then bnd (cnv_space2nbsp e text1) (\<lambda>t2.
                        set_box box (\<lambda>b. b\<lparr>b_text := Some t2, b_length := length t2\<rparr>))
                   else ret ()) (\<lambda>_.
          bnd (gets (\<lambda>c. b_children (boxes c ! i))) (\<lambda>ch.
          bnd (box_add_child i box) (\<lambda>_.
          bnd (gets (\<lambda>c. boxes c ! box)) (\<lambda>b2.
          bnd (case b_text b2 of
                 None \<Rightarrow> fail Abort
               | Some bt \<Rightarrow>
                   if take 1 bt = '' '' then
                     bnd (set_box box (\<lambda>b. b\<lparr>b_length := b_length b2 - 1,
                            b_text := Some (take (b_length b2 - 1) (drop 1 bt) @
                                            drop (b_length b2 - 1) bt)\<rparr>)) (\<lambda>_.
                     if ch = [] then ret ()
                     else set_box (last ch) (\<lambda>b. b\<lparr>b_space := True\<rparr>))
                   else ret ()) (\<lambda>_.
          ret (Some i)))))))))))))
      else
        bnd (cnv_space2nbsp e content) (\<lambda>text.
        pre_lines e parent_style status parent inline_container
          (if text_transform parent_style \<noteq> CSS_TEXT_TRANSFORM_NONE
           then box_text_transform text (length text) (text_transform parent_style)
           else text)))"

text \<open>The loop \<^verbatim>\<open>for (c = n->children; c != 0; c = c->next) if
  (!convert_xml_to_box(c, content, style, parent, inline_container, status)) goto
  no_memory;\<close> where \<open>conv\<close> is \<^verbatim>\<open>convert_xml_to_box\<close>, which the C file declares ahead
  of \<^verbatim>\<open>box_construct_element\<close>. The inline container is passed by reference in C; here
  it is an argument and the result.\<close>

fun convert_children ::
  "(xmlNode \<Rightarrow> css_style \<Rightarrow> nat \<Rightarrow> nat option \<Rightarrow> box_status \<Rightarrow> nat option cm) \<Rightarrow>
   xmlNode list \<Rightarrow> css_style \<Rightarrow> nat \<Rightarrow> nat option \<Rightarrow> box_status \<Rightarrow> nat option cm" where
  "convert_children conv [] style parent inline_container status = ret inline_container"
| "convert_children conv (c # cs) style parent inline_container status =
     bnd (conv c style parent inline_container status) (\<lambda>ic.
     convert_children conv cs style parent ic status)"

text \<open>\<^verbatim>\<open>MAX_SPAN\<close>, and the code for one span attribute:
  \<^verbatim>\<open>box->columns = strtol(s, NULL, 10); if (MAX_SPAN < box->columns) box->columns = 1;\<close>
  The \<^verbatim>\<open>long\<close> is converted to the \<^verbatim>\<open>unsigned int\<close> of the field and compared as
  such. Modelled from the spec: the declaration of \<^verbatim>\<open>struct box\<close> in render/box.h is
  not under src/; the span counts are counts, taken as \<^verbatim>\<open>unsigned\<close>.\<close>

definition MAX_SPAN :: "32 word" where
  "MAX_SPAN = 100"

definition span_value :: "string \<Rightarrow> 32 word" where
  "span_value s =
     (let v = (word_of_int (strtol s) :: 32 word) in if MAX_SPAN < v then 1 else v)"

text \<open>The code of \<^verbatim>\<open>box_construct_element\<close> after the label \<^verbatim>\<open>end\<close>: "now fetch any
  background image for this box".\<close>

definition element_end :: "env \<Rightarrow> nat option \<Rightarrow> unit cm" where
  "element_end e box_opt =
     (case box_opt of
        None \<Rightarrow> ret ()
      | Some box \<Rightarrow>
          bnd (gets (\<lambda>c. b_style (boxes c ! box))) (\<lambda>st.
          case st of
            None \<Rightarrow> ret ()
          | Some style \<Rightarrow>
              (case background_image style of
                 None \<Rightarrow> ret ()
               | Some uri \<Rightarrow>
                   bnd (strdup e uri) (\<lambda>url.
                   bnd (gets available_width) (\<lambda>w.
                   bnd (html_fetch_object e url box True w 1000 True) (\<lambda>ok.
                   if ok then ret () else fail NoMemory))))))"

text \<open>\<^verbatim>\<open>box_construct_element\<close>: construct the box tree for an XML element. The
  function is written in the parts that its comments head.

  "Extract title attribute, if present", "extract id attribute, if present": the two
  local strings and the status with them.\<close>

definition element_title_id ::
  "env \<Rightarrow> xmlNode \<Rightarrow> box_status \<Rightarrow> (string option \<times> string option \<times> box_status) cm" where
  "element_title_id e n status =
     bnd (case xmlGetProp n ''title'' of
            None \<Rightarrow> ret None
          | Some title0 \<Rightarrow> bnd (squash_whitespace e title0) (\<lambda>x. ret (Some x))) (\<lambda>title.
     bnd (case xmlGetProp n ''id'' of
            None \<Rightarrow> ret None
          | Some id0 \<Rightarrow> bnd (squash_whitespace e id0) (\<lambda>x. ret (Some x))) (\<lambda>ident.
     (let status1 = (case title of None \<Rightarrow> status | Some x \<Rightarrow> status\<lparr>st_title := title\<rparr>);
          status2 = (case ident of None \<Rightarrow> status1 | Some x \<Rightarrow> status1\<lparr>st_id := ident\<rparr>)
      in ret (title, ident, status2))))"

text \<open>"Special elements": the special convert function if one exists for this element,
  else ("general element") a new box.\<close>

definition element_box ::
  "env \<Rightarrow> xmlNode \<Rightarrow> box_status \<Rightarrow> css_style \<Rightarrow> string option \<Rightarrow> string option \<Rightarrow>
   (box_result \<times> box_status) cm" where
  "element_box e n status style title ident =
     (case element_table (node_name n) of
        Some convert \<Rightarrow> convert e n status style
      | None \<Rightarrow>
          bnd (box_create e (Some style) (st_href status) title ident) (\<lambda>box.
          result (Some box) True status))"

text \<open>"This is an inline box": the block entered when the box is INLINE, INLINE_BLOCK or
  BR or the style floats. The result says whether the block left with \<^verbatim>\<open>goto end\<close>, and
  gives \<^verbatim>\<open>parent\<close> and \<^verbatim>\<open>*inline_container\<close> as the block leaves them.\<close>

definition element_inline ::
  "env \<Rightarrow> (xmlNode \<Rightarrow> css_style \<Rightarrow> nat \<Rightarrow> nat option \<Rightarrow> box_status \<Rightarrow> nat option cm) \<Rightarrow>
   xmlNode \<Rightarrow> css_style \<Rightarrow> nat \<Rightarrow> nat option \<Rightarrow> box_status \<Rightarrow> string option \<Rightarrow>
   string option \<Rightarrow> bool \<Rightarrow> nat \<Rightarrow> box_type \<Rightarrow> (bool \<times> nat \<times> nat option) cm" where
  "element_inline e conv n style parent inline_container status title ident
     convert_children_flag box type =
     bnd (make_container e parent inline_container) (\<lambda>i.
     if type = BOX_INLINE \<or> type = BOX_BR then
       bnd (box_add_child i box) (\<lambda>_.
       bnd (if convert_children_flag
            then convert_children conv (node_children n) style parent (Some i) status
            else ret (Some i)) (\<lambda>ic.
       ret (True, parent, ic)))
     else if type = BOX_INLINE_BLOCK then
       bnd (box_add_child i box) (\<lambda>_.
       bnd (if convert_children_flag
            then convert_children conv (node_children n) style box None status
            else ret None) (\<lambda>inline_container_c.
       ret (True, parent, Some i)))
     else
       bnd (box_create e None (st_href status) title ident) (\<lambda>fl.
       bnd (set_box fl (\<lambda>b. b\<lparr>b_type :=
              (if float' style = CSS_FLOAT_LEFT then BOX_FLOAT_LEFT
               else BOX_FLOAT_RIGHT)\<rparr>)) (\<lambda>_.
       bnd (box_add_child i fl) (\<lambda>_.
       bnd (if type = BOX_INLINE \<or> type = BOX_INLINE_BLOCK
            then set_box box (\<lambda>b. b\<lparr>b_type := BOX_BLOCK\<rparr>)
            else ret ()) (\<lambda>_.
       ret (False, fl, Some i))))))"

text \<open>"Non-inline box: add to tree and recurse", then the span attributes. The result is
  \<^verbatim>\<open>*inline_container\<close>: "new inline container unless this is a float".\<close>

definition element_block ::
  "env \<Rightarrow> (xmlNode \<Rightarrow> css_style \<Rightarrow> nat \<Rightarrow> nat option \<Rightarrow> box_status \<Rightarrow> nat option cm) \<Rightarrow>
   xmlNode \<Rightarrow> css_style \<Rightarrow> nat \<Rightarrow> nat option \<Rightarrow> box_status \<Rightarrow> bool \<Rightarrow> nat \<Rightarrow>
   nat option cm" where
  "element_block e conv n style parent inline_container status convert_children_flag box =
     bnd (box_add_child parent box) (\<lambda>_.
     bnd (if convert_children_flag
          then convert_children conv (node_children n) style box None status
          else ret None) (\<lambda>inline_container_c.
     bnd (case xmlGetProp n ''colspan'' of
            None \<Rightarrow> ret ()
          | Some s \<Rightarrow> set_box box (\<lambda>b. b\<lparr>b_columns := span_value s\<rparr>)) (\<lambda>_.
     bnd (case xmlGetProp n ''rowspan'' of
            None \<Rightarrow> ret ()
          | Some s \<Rightarrow> set_box box (\<lambda>b. b\<lparr>b_rows := span_value s\<rparr>)) (\<lambda>_.
     ret (if float' style = CSS_FLOAT_NONE then None else inline_container)))))"

text \<open>The function after the special elements, for the box of the element: "set box type
  from style if it has not been set already", the placement, and the code at \<^verbatim>\<open>end\<close>.\<close>

definition element_place ::
  "env \<Rightarrow> (xmlNode \<Rightarrow> css_style \<Rightarrow> nat \<Rightarrow> nat option \<Rightarrow> box_status \<Rightarrow> nat option cm) \<Rightarrow>
   xmlNode \<Rightarrow> css_style \<Rightarrow> nat \<Rightarrow> nat option \<Rightarrow> box_status \<Rightarrow> string option \<Rightarrow>
   string option \<Rightarrow> bool \<Rightarrow> nat \<Rightarrow> nat option cm" where
  "element_place e conv n style parent inline_container status title ident
     convert_children_flag box =
     bnd (gets (\<lambda>c. b_type (boxes c ! box))) (\<lambda>type0.
     bnd (if type0 = BOX_INLINE
          then set_box box (\<lambda>b. b\<lparr>b_type := box_map (display style)\<rparr>)
          else ret ()) (\<lambda>_.
     bnd (gets (\<lambda>c. b_type (boxes c ! box))) (\<lambda>type.
     bnd (if type = BOX_INLINE \<or> type = BOX_INLINE_BLOCK \<or>
             float' style = CSS_FLOAT_LEFT \<or> float' style = CSS_FLOAT_RIGHT \<or>
             type = BOX_BR
          then element_inline e conv n style parent inline_container status title ident
                 convert_children_flag box type
          else ret (False, parent, inline_container)) (\<lambda>(at_end, parent', ic).
     bnd (if at_end then ret ic
          else element_block e conv n style parent' ic status convert_children_flag box)
       (\<lambda>ic'.
     bnd (element_end e (Some box)) (\<lambda>_.
     ret ic'))))))"

text \<open>The result of \<^verbatim>\<open>box_construct_element\<close> is the new current inline container.\<close>

definition box_construct_element ::
  "env \<Rightarrow> (xmlNode \<Rightarrow> css_style \<Rightarrow> nat \<Rightarrow> nat option \<Rightarrow> box_status \<Rightarrow> nat option cm) \<Rightarrow>
   xmlNode \<Rightarrow> css_style \<Rightarrow> nat \<Rightarrow> nat option \<Rightarrow> box_status \<Rightarrow> nat option cm" where
  "box_construct_element e conv n parent_style parent inline_container status =
     (case box_get_style e parent_style n of
        None \<Rightarrow> fail NoMemory
      | Some style \<Rightarrow>
          if display style = CSS_DISPLAY_NONE
          then bnd (element_end e None) (\<lambda>_. ret inline_container)
          else
            bnd (element_title_id e n status) (\<lambda>(title, ident, status2).
            bnd (element_box e n status2 style title ident) (\<lambda>(res, status3).
            case res_box res of
              None \<Rightarrow>
                if res_convert_children res then fail Abort
                else bnd (element_end e None) (\<lambda>_. ret inline_container)
            | Some box \<Rightarrow>
                element_place e conv n style parent inline_container status3 title ident
                  (res_convert_children res) box)))"

lemma convert_children_cong:
  "(\<And>c. c \<in> set cs \<Longrightarrow> conv c = conv' c) \<Longrightarrow>
   convert_children conv cs = convert_children conv' cs"
proof (induction cs)
  case Nil
  show ?case by (intro ext) simp
next
  case (Cons c cs)
  have "conv c = conv' c" "convert_children conv cs = convert_children conv' cs"
    using Cons by simp_all
  then show ?case by (intro ext) simp
qed

lemma box_construct_element_cong [fundef_cong]:
  "e = e' \<Longrightarrow> n = n' \<Longrightarrow> (\<And>c. c \<in> set (node_children n') \<Longrightarrow> conv c = conv' c) \<Longrightarrow>
   box_construct_element e conv n = box_construct_element e' conv' n'"
proof -
  assume eqs: "e = e'" "n = n'"
    and conv: "\<And>c. c \<in> set (node_children n') \<Longrightarrow> conv c = conv' c"
  have h: "convert_children conv (node_children n') = convert_children conv' (node_children n')"
    using convert_children_cong [of "node_children n'" conv conv'] conv by blast
  show ?thesis
    unfolding eqs
  proof (intro ext)
    fix parent_style parent inline_container status c
    show "box_construct_element e' conv n' parent_style parent inline_container status c =
          box_construct_element e' conv' n' parent_style parent inline_container status c"
      unfolding box_construct_element_def element_place_def element_inline_def
        element_block_def h
      by (rule refl)
  qed
qed

text \<open>\<^verbatim>\<open>convert_xml_to_box\<close>: recursively construct a box tree from an xml tree and
  stylesheets; a node that is neither an element nor text is ignored.\<close>

function convert_xml_to_box ::
  "env \<Rightarrow> xmlNode \<Rightarrow> css_style \<Rightarrow> nat \<Rightarrow> nat option \<Rightarrow> box_status \<Rightarrow> nat option cm" where
  "convert_xml_to_box e n parent_style parent inline_container status =
     (case n of
        XML_ELEMENT_NODE name props cs \<Rightarrow>
          box_construct_element e (\<lambda>c. convert_xml_to_box e c) n parent_style parent
            inline_container status
      | XML_TEXT_NODE content \<Rightarrow>
          box_construct_text e content parent_style parent inline_container status
      | XML_COMMENT_NODE t \<Rightarrow> ret inline_container)"
  by pat_completeness auto
termination
  by (relation "measure (\<lambda>(e, n, parent_style, parent, ic, status). size n)")
    (auto simp: less_Suc_eq_le size_list_estimation')

text \<open>\<^verbatim>\<open>xml_to_box\<close>: construct a box tree from an xml tree and stylesheets. The
  local \<^verbatim>\<open>struct box root\<close> takes the next address.\<close>

definition root_box :: box where
  "root_box = (new_box None None None None)\<lparr>b_type := BOX_BLOCK\<rparr>"

definition xml_to_box :: "env \<Rightarrow> xmlNode \<Rightarrow> unit cm" where
  "xml_to_box e n =
     bnd (gets (\<lambda>c. length (boxes c))) (\<lambda>root.
     bnd (modify (\<lambda>c. c\<lparr>boxes := boxes c @ [root_box]\<rparr>)) (\<lambda>_.
     bnd (css_duplicate_style e (css_base_style e)) (\<lambda>style.
     bnd (convert_xml_to_box e n style root None
            \<lparr>st_href = None, st_title = None, current_form = None, st_id = None\<rparr>) (\<lambda>ic.
     bnd (\<lambda>c. case box_normalise_block e root c of
                 None \<Rightarrow> Inl NoMemory
               | Some c' \<Rightarrow> Inr ((), c')) (\<lambda>_.
     bnd (gets (\<lambda>c. b_children (boxes c ! root))) (\<lambda>ch.
     case ch of
       [] \<Rightarrow> fail Abort
     | l # rest \<Rightarrow>
         bnd (modify (\<lambda>c. c\<lparr>layout := Some l\<rparr>)) (\<lambda>_.
         set_box l (\<lambda>b. b\<lparr>b_parent := None\<rparr>))))))))"

subsection \<open>Notions used to state the properties\<close>

text \<open>The string at which round \<open>i\<close> of the second loop starts.\<close>

fun multi_length_rest :: "(string \<Rightarrow> cfloat \<times> nat) \<Rightarrow> nat \<Rightarrow> string \<Rightarrow> string" where
  "multi_length_rest f 0 s = s"
| "multi_length_rest f (Suc i) s = multi_length_rest f i (snd (multi_length_entry f s))"

text \<open>The type that the character after the number stands for.\<close>

definition type_after :: "string \<Rightarrow> length_type" where
  "type_after s =
     (if take 1 s = ''%'' then LENGTH_PERCENT
      else if take 1 s = ''*'' then LENGTH_RELATIVE
      else LENGTH_PX)"

subsection \<open>An environment and a document for examples\<close>

text \<open>A \<^verbatim>\<open>strtof\<close> that reads unsigned decimal digits, an allocator that never fails,
  a \<^verbatim>\<open>url_join\<close> that resolves against \<^verbatim>\<open>http://a/\<close>, and a style resolver that gives
  every element the same block style.\<close>

definition test_strtof :: "string \<Rightarrow> cfloat \<times> nat" where
  "test_strtof s =
     (Finite (of_int (strtol_digits 0 (takeWhile isdigit s))), length (takeWhile isdigit s))"

definition test_style :: css_style where
  "test_style = \<lparr>display = CSS_DISPLAY_BLOCK, float' = CSS_FLOAT_NONE,
     white_space = CSS_WHITE_SPACE_NORMAL, text_transform = CSS_TEXT_TRANSFORM_NONE,
     background_image = None, background_color = 0\<rparr>"

definition test_env :: env where
  "test_env = \<lparr>malloc_ok = (\<lambda>k. True),
     url_join = (\<lambda>rel base. if rel = [] then URL_FUNC_FAILED else URL_FUNC_OK (''http://a/'' @ rel)),
     content_lookup_other = (\<lambda>ty. ty = ''application/x-unknown''),
     messages_get = (\<lambda>k. k),
     strtof = test_strtof,
     box_get_style = (\<lambda>parent_style n. Some test_style),
     css_base_style = test_style,
     box_normalise_block = (\<lambda>root c. Some c)\<rparr>"

definition test_content :: content where
  "test_content = \<lparr>base_url = ''http://a/self.html'', available_width = 800,
     background_colour = 0, boxes = [], gadgets = [], forms = [], fetches = [], allocs = 0,
     layout = None\<rparr>"

text \<open>An anchor with an href, and a status in which an outer anchor has set one.\<close>

definition anchor_node :: xmlNode where
  "anchor_node = XML_ELEMENT_NODE ''a'' [(''href'', Some ''inner.html'')] []"

definition outer_status :: box_status where
  "outer_status = \<lparr>st_href = Some ''outer.html'', st_title = None, current_form = None,
     st_id = None\<rparr>"



definition no_status :: box_status where
  "no_status = \<lparr>st_href = None, st_title = None, current_form = None, st_id = None\<rparr>"

text \<open>A step that changes nothing but the allocation count.\<close>

definition only_allocs :: "content \<Rightarrow> content \<Rightarrow> bool" where
  "only_allocs c c' = (c' = c\<lparr>allocs := allocs c'\<rparr>)"


definition form_content :: content where
  "form_content =
     test_content\<lparr>boxes := [root_box],
       forms := [\<lparr>fm_action = ''submit.cgi'', fm_method = method_GET, fm_controls = []\<rparr>]\<rparr>"

definition form_status :: box_status where
  "form_status = \<lparr>st_href = None, st_title = None, current_form = Some 0, st_id = None\<rparr>"



text \<open>A pool with a root, an inline container under it and a text box in the container.\<close>

definition container_content :: content where
  "container_content =
     test_content\<lparr>boxes :=
       [root_box\<lparr>b_children := [1]\<rparr>,
        (new_box None None None None)\<lparr>b_type := BOX_INLINE_CONTAINER, b_children := [2],
           b_parent := Some 0\<rparr>,
        (new_box (Some test_style) None None None)\<lparr>b_text := Some ''a'', b_length := 1,
           b_style_clone := True, b_parent := Some 1\<rparr>]\<rparr>"


text \<open>The nodes below a node.\<close>

fun descendants :: "xmlNode \<Rightarrow> xmlNode list" where
  "descendants (XML_ELEMENT_NODE name props cs) = concat (map (\<lambda>c. c # descendants c) cs)"
| "descendants (XML_TEXT_NODE t) = []"
| "descendants (XML_COMMENT_NODE t) = []"

text \<open>A select whose only child is an optgroup without options.\<close>

definition empty_select_node :: xmlNode where
  "empty_select_node =
     XML_ELEMENT_NODE ''select'' [(''name'', Some ''s'')]
       [XML_ELEMENT_NODE ''optgroup'' [] [XML_TEXT_NODE ''x'']]"

subsection \<open>The structural invariant of the box tree\<close>

text \<open>A link from a box of kind \<open>tp\<close> to a child of kind \<open>tc\<close> is in order when an
  Inline or LineBreak child has an InlineContainer as its parent and an InlineContainer
  has no Block child.\<close>

definition edge_ok :: "box_type \<Rightarrow> box_type \<Rightarrow> bool" where
  "edge_ok tp tc =
     (((tc = BOX_INLINE \<or> tc = BOX_BR) \<longrightarrow> tp = BOX_INLINE_CONTAINER) \<and>
      (tp = BOX_INLINE_CONTAINER \<longrightarrow> tc \<noteq> BOX_BLOCK))"

text \<open>The invariant of a box pool: every child of every box is a box of the pool, and
  every link is in order.\<close>

definition tree_ok :: "box list \<Rightarrow> bool" where
  "tree_ok bs =
     (\<forall>p < length bs. \<forall>ch \<in> set (b_children (bs ! p)).
        ch < length bs \<and> edge_ok (b_type (bs ! p)) (b_type (bs ! ch)))"

text \<open>How a pool \<open>bs'\<close> may differ from an earlier pool \<open>bs\<close>: boxes are added, and a
  box of \<open>bs\<close> keeps its kind and its span counts, and keeps children if it had any.\<close>

definition ext :: "box list \<Rightarrow> box list \<Rightarrow> bool" where
  "ext bs bs' =
     (length bs \<le> length bs' \<and>
      (\<forall>i < length bs.
         b_type (bs' ! i) = b_type (bs ! i) \<and> b_columns (bs' ! i) = b_columns (bs ! i) \<and>
         b_rows (bs' ! i) = b_rows (bs ! i) \<and>
         (b_children (bs ! i) \<noteq> [] \<longrightarrow> b_children (bs' ! i) \<noteq> [])))"

definition grows :: "box list \<Rightarrow> box list \<Rightarrow> bool" where
  "grows bs bs' = (ext bs bs' \<and> (tree_ok bs \<longrightarrow> tree_ok bs'))"

text \<open>The pool after \<^verbatim>\<open>box_add_child(parent, child)\<close>.\<close>

definition add_child :: "nat \<Rightarrow> nat \<Rightarrow> box list \<Rightarrow> box list" where
  "add_child p ch bs =
     (let bs1 = bs[p := (bs ! p)\<lparr>b_children := b_children (bs ! p) @ [ch]\<rparr>]
      in bs1[ch := (bs1 ! ch)\<lparr>b_parent := Some p\<rparr>])"

subsection \<open>Notions for preformatted text\<close>

text \<open>The text that the loop for white-space: pre runs over: the content with hard
  spaces, transformed if the style says so.\<close>

definition pre_text :: "css_style \<Rightarrow> string \<Rightarrow> string" where
  "pre_text parent_style content =
     (let text = space2nbsp content
      in if text_transform parent_style \<noteq> CSS_TEXT_TRANSFORM_NONE
         then box_text_transform text (length text) (text_transform parent_style)
         else text)"

text \<open>The segments that the loop takes from the text, one for each round: the round
  takes the characters before the next CR or LF, steps over a CR LF pair or a single
  character, and the loop ends when nothing is left.\<close>

function pre_segments :: "string \<Rightarrow> string list" where
  "pre_segments current =
     (let len = strcspn_crlf current in
      case drop len current of
        [] \<Rightarrow> [take len current]
      | x # rest \<Rightarrow>
          if skip_eol (x # rest) = [] then [take len current]
          else take len current # pre_segments (skip_eol (x # rest)))"
  by pat_completeness auto
termination
  by (relation "measure length") (auto dest: skip_eol_shorter simp del: skip_eol.simps)

definition ends_eol :: "string \<Rightarrow> bool" where
  "ends_eol s = (s \<noteq> [] \<and> (last s = CHR 0x0D \<or> last s = CHR 0x0A))"

text \<open>Kind, text, length and parent of a box, and these for the boxes that the segments
  give rise to: made from address \<open>k\<close> on under \<open>parent\<close>, the first segment in the
  container \<open>ic\<close> if there is one, every other segment in a container of its own.\<close>

definition box_view :: "box \<Rightarrow> box_type \<times> string option \<times> nat \<times> nat option" where
  "box_view b = (b_type b, b_text b, b_length b, b_parent b)"

fun pre_boxes ::
  "nat \<Rightarrow> nat \<Rightarrow> nat option \<Rightarrow> string list \<Rightarrow>
   (box_type \<times> string option \<times> nat \<times> nat option) list" where
  "pre_boxes parent k ic [] = []"
| "pre_boxes parent k ic (s # ss) =
     (case ic of
        Some i \<Rightarrow> (BOX_INLINE, Some s, length s, Some i) # pre_boxes parent (Suc k) None ss
      | None \<Rightarrow>
          (BOX_INLINE_CONTAINER, None, 0, Some parent) #
          (BOX_INLINE, Some s, length s, Some k) # pre_boxes parent (Suc (Suc k)) None ss)"

text \<open>A preformatting style, the text of two lines \<^verbatim>\<open>a\<close> and \<^verbatim>\<open>b\<close>, and the content
  after its boxes are made under the root.\<close>

definition pre_style :: css_style where
  "pre_style = test_style\<lparr>white_space := CSS_WHITE_SPACE_PRE\<rparr>"

definition two_lines :: string where
  "two_lines = [CHR ''a'', CHR 0x0A, CHR ''b'']"

definition two_lines_content :: content where
  "two_lines_content =
     form_content\<lparr>allocs := 7, boxes :=
       [root_box\<lparr>b_children := [1, 3]\<rparr>,
        (new_box None None None None)\<lparr>b_type := BOX_INLINE_CONTAINER, b_children := [2],
           b_parent := Some 0\<rparr>,
        (new_box (Some pre_style) None None None)\<lparr>b_style_clone := True,
           b_text := Some ''a'', b_length := 1, b_parent := Some 1\<rparr>,
        (new_box None None None None)\<lparr>b_type := BOX_INLINE_CONTAINER, b_children := [4],
           b_parent := Some 0\<rparr>,
        (new_box (Some pre_style) None None None)\<lparr>b_style_clone := True,
           b_text := Some ''b'', b_length := 1, b_parent := Some 3\<rparr>]\<rparr>"

subsection \<open>Notions for framesets\<close>



text \<open>The pool after the column loop has made a cell and its object box in the row
  \<open>row\<close>, after it has done so \<open>m\<close> times, after the row loop has made a row in the
  table \<open>tbl\<close>, and after it has made rows with \<open>ms\<close> cells.\<close>

definition cell_boxes :: "css_style \<Rightarrow> nat \<Rightarrow> box list \<Rightarrow> box list" where
  "cell_boxes style row bs =
     add_child (length bs) (Suc (length bs))
       (add_child row (length bs)
          (bs @ [(new_box (Some style) None None None)\<lparr>b_type := BOX_TABLE_CELL\<rparr>]) @
        [(new_box (Some style) None None None)\<lparr>b_type := BOX_BLOCK\<rparr>])"

primrec cols_boxes :: "css_style \<Rightarrow> nat \<Rightarrow> nat \<Rightarrow> box list \<Rightarrow> box list" where
  "cols_boxes style row 0 bs = bs"
| "cols_boxes style row (Suc m) bs = cols_boxes style row m (cell_boxes style row bs)"

definition row_boxes :: "css_style \<Rightarrow> nat \<Rightarrow> box list \<Rightarrow> box list" where
  "row_boxes style tbl bs =
     add_child tbl (length bs)
       (bs @ [(new_box (Some style) None None None)\<lparr>b_type := BOX_TABLE_ROW\<rparr>])"

fun rows_boxes :: "css_style \<Rightarrow> nat \<Rightarrow> nat list \<Rightarrow> box list \<Rightarrow> box list" where
  "rows_boxes style tbl [] bs = bs"
| "rows_boxes style tbl (m # ms) bs =
     rows_boxes style tbl ms (cols_boxes style (length bs) m (row_boxes style tbl bs))"



text \<open>The rows and the cells that the row loop makes from a pool of length \<open>l\<close> when the
  rows have \<open>ms\<close> cells, and the object boxes for which a fetch is requested.\<close>

fun row_indices :: "nat \<Rightarrow> nat list \<Rightarrow> nat list" where
  "row_indices l [] = []"
| "row_indices l (m # ms) = l # row_indices (Suc l + 2 * m) ms"






subsection \<open>Cells with span attributes\<close>

text \<open>A style resolver that gives every element the display of a table cell, and a cell
  with \<^verbatim>\<open>colspan="500"\<close> and \<^verbatim>\<open>rowspan="0"\<close>.\<close>

definition cell_style :: css_style where
  "cell_style = test_style\<lparr>display := CSS_DISPLAY_TABLE_CELL\<rparr>"




subsection \<open>Notions for the proof of the structural invariant\<close>

text \<open>The part of a box that the invariant and the span counts depend on, and
  \<^verbatim>\<open>box_add_child\<close> on these parts.\<close>

definition skel :: "box \<Rightarrow> box_type \<times> nat list \<times> 32 word \<times> 32 word" where
  "skel b = (b_type b, b_children b, b_columns b, b_rows b)"

definition sk_add_child ::
  "nat \<Rightarrow> nat \<Rightarrow> (box_type \<times> nat list \<times> 32 word \<times> 32 word) list \<Rightarrow>
   (box_type \<times> nat list \<times> 32 word \<times> 32 word) list" where
  "sk_add_child p ch sk = sk[p := (case sk ! p of (t, chs, cr) \<Rightarrow> (t, chs @ [ch], cr))]"

text \<open>What a special case element function leaves: a pool grown from the one it found,
  and its box, if any, is the first box it made, not an inline container, and if of kind
  Inline the only box made, without children.\<close>

definition handler_post :: "box list \<Rightarrow> nat option \<Rightarrow> box list \<Rightarrow> bool" where
  "handler_post bs rb bs' =
     (grows bs bs' \<and>
      (case rb of
         None \<Rightarrow> True
       | Some b \<Rightarrow>
           b = length bs \<and> b < length bs' \<and> b_type (bs' ! b) \<noteq> BOX_INLINE_CONTAINER \<and>
           (b_type (bs' ! b) = BOX_INLINE \<longrightarrow>
              map skel bs' =
                map skel bs @ [(BOX_INLINE, [], b_columns (bs' ! b), b_rows (bs' ! b))])))"

text \<open>The current inline container, if any, is an inline container with a child; the
  parent is a box that is not an inline container.\<close>

definition cont_ok :: "box list \<Rightarrow> nat \<Rightarrow> bool" where
  "cont_ok bs i = (i < length bs \<and> b_type (bs ! i) = BOX_INLINE_CONTAINER)"

definition ic_ok :: "box list \<Rightarrow> nat option \<Rightarrow> bool" where
  "ic_ok bs ic = (case ic of None \<Rightarrow> True | Some i \<Rightarrow> cont_ok bs i \<and> b_children (bs ! i) \<noteq> [])"

definition parent_ok :: "box list \<Rightarrow> nat \<Rightarrow> bool" where
  "parent_ok bs p = (p < length bs \<and> b_type (bs ! p) \<noteq> BOX_INLINE_CONTAINER)"

text \<open>What the conversion of a node leaves, from the pool \<open>bs\<close> with parent and inline
  container slot to the pool \<open>bs'\<close> and the slot \<open>ic'\<close>.\<close>

definition conv_post :: "box list \<Rightarrow> nat \<Rightarrow> nat option \<Rightarrow> box list \<Rightarrow> nat option \<Rightarrow> bool" where
  "conv_post bs parent ic bs' ic' =
     (ext bs bs' \<and>
      (tree_ok bs \<and> parent_ok bs parent \<and> ic_ok bs ic \<longrightarrow> tree_ok bs' \<and> ic_ok bs' ic'))"

text \<open>Partial correctness of a step: when \<open>m\<close> returns from \<open>c\<close>, the result and
  the state it leaves satisfy \<open>Q\<close>. A step is quiet when it leaves the kind, the children
  and the span counts of every box as they were and makes no box.\<close>
definition wp :: "'a cm \<Rightarrow> ('a \<Rightarrow> content \<Rightarrow> bool) \<Rightarrow> content \<Rightarrow> bool" where
  "wp m Q c = (case m c of Inl err \<Rightarrow> True | Inr (x, c') \<Rightarrow> Q x c')"

definition quiet :: "'a cm \<Rightarrow> bool" where
  "quiet m = (\<forall>c x c'. m c = Inr (x, c') \<longrightarrow> map skel (boxes c') = map skel (boxes c))"

text \<open>What \<^verbatim>\<open>box_frameset\<close> leaves: a pool grown from the one it found, and its box
  is the first box it made, a table.\<close>
definition table_post :: "box list \<Rightarrow> nat option \<Rightarrow> box list \<Rightarrow> bool" where
  "table_post bs rb bs' =
     (grows bs bs' \<and> rb = Some (length bs) \<and> length bs < length bs' \<and>
      b_type (bs' ! length bs) = BOX_TABLE)"

text \<open>A paragraph with a line of text.\<close>

definition paragraph_node :: xmlNode where
  "paragraph_node = XML_ELEMENT_NODE ''p'' [] [XML_TEXT_NODE ''hi'']"

section \<open>Properties\<close>

subsection \<open>The multi-length parser\<close>

lemma multi_length_count_eq: "multi_length_count s n = n + count_list s (CHR '','')"
  by (induction s arbitrary: n) auto

lemma length_multi_length_entries: "length (multi_length_entries f n s) = n"
  by (induction n arbitrary: s) (auto split: prod.splits)

lemma nth_multi_length_entries:
  "i < n \<Longrightarrow> multi_length_entries f n s ! i = fst (multi_length_entry f (multi_length_rest f i s))"
proof (induction n arbitrary: s i)
  case 0
  then show ?case by simp
next
  case (Suc n)
  show ?case
  proof (cases i)
    case 0
    then show ?thesis by (simp split: prod.splits)
  next
    case (Suc j)
    then have "j < n" using Suc.prems by simp
    then show ?thesis
      using Suc.IH [of j "snd (multi_length_entry f s)"] Suc by (auto split: prod.splits)
  qed
qed

lemma multi_length_entry_fst:
  "f (dropWhile isspace s) = (v, k) \<Longrightarrow>
   fst (multi_length_entry f s) =
     \<lparr>ml_type = type_after (drop k (dropWhile isspace s)),
      ml_value = (if float_le_zero v then Finite 1 else v)\<rparr>"
  by (auto simp: multi_length_entry_def type_after_def Let_def split: list.splits)

text \<open>Claim C9. For every input string, \<^verbatim>\<open>box_parse_multi_lengths\<close> returns (when its
  one allocation succeeds) exactly (number of commas) + 1 entries, at least one; the type of
  entry \<open>i\<close> is read off the character that follows the number parsed in round \<open>i\<close>
  (\<^verbatim>\<open>%\<close> percent, \<^verbatim>\<open>*\<close> relative, anything else pixels), and its value is the parsed
  value, replaced by 1 when that is zero or negative.\<close>

theorem box_parse_multi_lengths_entries:
  assumes "malloc_ok e (allocs c)"
  shows "\<exists>entries c'. box_parse_multi_lengths e s c = Inr (entries, c') \<and>
           length entries = count_list s (CHR '','') + 1 \<and>
           (\<forall>i < length entries.
              \<forall>v k. strtof e (dropWhile isspace (multi_length_rest (strtof e) i s)) = (v, k) \<longrightarrow>
                ml_type (entries ! i) =
                  type_after (drop k (dropWhile isspace (multi_length_rest (strtof e) i s))) \<and>
                ml_value (entries ! i) = (if float_le_zero v then Finite 1 else v))"
proof -
  let ?n = "multi_length_count s 1"
  let ?es = "multi_length_entries (strtof e) ?n s"
  have run: "box_parse_multi_lengths e s c = Inr (?es, c\<lparr>allocs := Suc (allocs c)\<rparr>)"
    using assms by (simp add: box_parse_multi_lengths_def bnd_def alloc_def ret_def)
  have "length ?es = ?n"
    by (rule length_multi_length_entries)
  then have len: "length ?es = count_list s (CHR '','') + 1"
    by (simp only: multi_length_count_eq)
  have each: "\<forall>i < length ?es.
      \<forall>v k. strtof e (dropWhile isspace (multi_length_rest (strtof e) i s)) = (v, k) \<longrightarrow>
        ml_type (?es ! i) =
          type_after (drop k (dropWhile isspace (multi_length_rest (strtof e) i s))) \<and>
        ml_value (?es ! i) = (if float_le_zero v then Finite 1 else v)"
  proof (intro allI impI)
    fix i v k
    assume i: "i < length ?es"
      and f: "strtof e (dropWhile isspace (multi_length_rest (strtof e) i s)) = (v, k)"
    have "i < ?n" using i by (simp add: length_multi_length_entries)
    then have "?es ! i = fst (multi_length_entry (strtof e) (multi_length_rest (strtof e) i s))"
      by (rule nth_multi_length_entries)
    then show "ml_type (?es ! i) =
          type_after (drop k (dropWhile isspace (multi_length_rest (strtof e) i s))) \<and>
        ml_value (?es ! i) = (if float_le_zero v then Finite 1 else v)"
      using multi_length_entry_fst [of "strtof e" "multi_length_rest (strtof e) i s" v k] f
      by simp
  qed
  show ?thesis
    using run len each by blast
qed

theorem box_parse_multi_lengths_entries_witness:
  "malloc_ok test_env (allocs test_content) \<and>
   (\<exists>entries c'. box_parse_multi_lengths test_env ''30, *,-5%'' test_content = Inr (entries, c') \<and>
      length entries = 3 \<and>
      entries ! 0 = \<lparr>ml_type = LENGTH_PX, ml_value = Finite 30\<rparr> \<and>
      entries ! 1 = \<lparr>ml_type = LENGTH_RELATIVE, ml_value = Finite 1\<rparr>)"
proof -
  have m: "malloc_ok test_env (allocs test_content)"
    by (simp add: test_env_def)
  obtain entries c' where r: "box_parse_multi_lengths test_env ''30, *,-5%'' test_content = Inr (entries, c')"
    and l: "length entries = count_list ''30, *,-5%'' (CHR '','') + 1"
    using box_parse_multi_lengths_entries [OF m, of "''30, *,-5%''"] by blast
  have "box_parse_multi_lengths test_env ''30, *,-5%'' test_content =
      Inr ([\<lparr>ml_type = LENGTH_PX, ml_value = Finite 30\<rparr>,
            \<lparr>ml_type = LENGTH_RELATIVE, ml_value = Finite 1\<rparr>,
            \<lparr>ml_type = LENGTH_PX, ml_value = Finite 1\<rparr>], test_content\<lparr>allocs := 1\<rparr>)"
    by (simp add: box_parse_multi_lengths_def bnd_def alloc_def ret_def test_env_def
        test_content_def test_strtof_def multi_length_entry_def skip_comma_def isspace_def
        isdigit_def digit_val_def Let_def)
  with r l m show ?thesis by auto
qed

subsection \<open>Results of the sequencing operations\<close>

lemma bnd_Inr_iff:
  "bnd m f c = Inr y \<longleftrightarrow> (\<exists>x c1. m c = Inr (x, c1) \<and> f x c1 = Inr y)"
  by (auto simp: bnd_def split: sum.splits)

lemma box_create_Inr:
  "box_create e style href title ident c = Inr (b, c') \<Longrightarrow>
   b = length (boxes c) \<and> boxes c' = boxes c @ [new_box style href title ident]"
  by (auto simp: box_create_def bnd_def alloc_def split: if_splits)

subsection \<open>Anchors\<close>

text \<open>Claim C8, as stated, fails: an anchor with an href inside an anchor that has set
  the status href replaces it. Here the status carries \<^verbatim>\<open>outer.html\<close> and the element is
  \<^verbatim>\<open><a href="inner.html">\<close>; the status that \<^verbatim>\<open>box_a\<close> leaves, and the anchor's box,
  carry \<^verbatim>\<open>inner.html\<close>.\<close>

theorem box_a_href_replaced_counterexample:
  "box_a test_env anchor_node outer_status test_style test_content =
     Inr ((\<lparr>res_box = Some 0, res_convert_children = True\<rparr>,
           outer_status\<lparr>st_href := Some ''inner.html''\<rparr>),
          test_content\<lparr>boxes := [new_box (Some test_style) (Some ''inner.html'') None None],
                       allocs := 1\<rparr>)"
  by (simp add: box_a_def anchor_node_def outer_status_def xmlGetProp_def bnd_def ret_def
      result_def box_create_def alloc_def test_env_def test_content_def)

text \<open>Claim C8, amended. For every a element, \<^verbatim>\<open>box_a\<close> (when it succeeds) captures
  the href attribute into the construction status whenever the attribute is present,
  whatever href the status carried before; without the attribute the status href is
  unchanged. The anchor's box carries the resulting href, and the children are
  converted.\<close>

theorem box_a_captures_href:
  assumes "box_a e n status style c = Inr ((r, status'), c')"
  shows "st_href status' =
           (case xmlGetProp n ''href'' of Some s \<Rightarrow> Some s | None \<Rightarrow> st_href status) \<and>
         res_box r = Some (length (boxes c)) \<and>
         b_href (boxes c' ! length (boxes c)) = st_href status' \<and>
         res_convert_children r"
  using assms
  by (auto simp: box_a_def Let_def bnd_Inr_iff result_def ret_def squash_whitespace_def
      alloc_def box_create_def new_box_def split: option.splits if_splits)

theorem box_a_captures_href_witness:
  "box_a test_env anchor_node outer_status test_style test_content =
     Inr ((\<lparr>res_box = Some 0, res_convert_children = True\<rparr>,
           outer_status\<lparr>st_href := Some ''inner.html''\<rparr>),
          test_content\<lparr>boxes := [new_box (Some test_style) (Some ''inner.html'') None None],
                       allocs := 1\<rparr>) \<and>
   st_href (outer_status\<lparr>st_href := Some ''inner.html''\<rparr>) =
     (case xmlGetProp anchor_node ''href'' of
        Some s \<Rightarrow> Some s
      | None \<Rightarrow> st_href outer_status)"
proof -
  have run: "box_a test_env anchor_node outer_status test_style test_content =
     Inr ((\<lparr>res_box = Some 0, res_convert_children = True\<rparr>,
           outer_status\<lparr>st_href := Some ''inner.html''\<rparr>),
          test_content\<lparr>boxes := [new_box (Some test_style) (Some ''inner.html'') None None],
                       allocs := 1\<rparr>)"
    by (simp add: box_a_def anchor_node_def outer_status_def xmlGetProp_def bnd_def ret_def
        result_def box_create_def alloc_def test_env_def test_content_def)
  from box_a_captures_href [OF run] run show ?thesis by simp
qed

subsection \<open>Objects: the self-inclusion guard\<close>




lemma only_allocs_fields:
  "only_allocs c c' \<Longrightarrow>
   boxes c' = boxes c \<and> fetches c' = fetches c \<and> base_url c' = base_url c \<and>
   gadgets c' = gadgets c \<and> forms c' = forms c \<and> available_width c' = available_width c"
  by (cases c, cases c') (simp add: only_allocs_def)

lemma ret_Inr: "ret x c = Inr (y, c') \<longleftrightarrow> y = x \<and> c' = c"
  by (auto simp: ret_def)

lemma fail_Inr: "fail err c \<noteq> Inr y"
  by (simp add: fail_def)

lemma alloc_Inr:
  "alloc e c = Inr (u, c') \<longleftrightarrow> malloc_ok e (allocs c) \<and> c' = c\<lparr>allocs := Suc (allocs c)\<rparr>"
  by (auto simp: alloc_def)

lemma try_alloc_Inr:
  "try_alloc e c = Inr (ok, c') \<longleftrightarrow>
   ok = malloc_ok e (allocs c) \<and> c' = c\<lparr>allocs := Suc (allocs c)\<rparr>"
  by (auto simp: try_alloc_def)

lemma strdup_Inr:
  "strdup e s c = Inr (x, c') \<longleftrightarrow>
   malloc_ok e (allocs c) \<and> x = s \<and> c' = c\<lparr>allocs := Suc (allocs c)\<rparr>"
  by (auto simp: strdup_def bnd_Inr_iff alloc_Inr ret_Inr)





lemma modify_Inr: "modify f c = Inr (u, c') \<longleftrightarrow> c' = f c"
  by (auto simp: modify_def)

lemma gets_Inr: "gets f c = Inr (x, c') \<longleftrightarrow> x = f c \<and> c' = c"
  by (auto simp: gets_def)

lemma set_box_Inr: "set_box b f c = Inr (u, c') \<longleftrightarrow> c' = upd_box b f c"
  by (auto simp: set_box_def modify_def)

lemma box_create_Inr_iff:
  "box_create e style href title ident c = Inr (b, c') \<longleftrightarrow>
   malloc_ok e (allocs c) \<and> b = length (boxes c) \<and>
   c' = c\<lparr>allocs := Suc (allocs c), boxes := boxes c @ [new_box style href title ident]\<rparr>"
  by (auto simp: box_create_def bnd_Inr_iff alloc_Inr)

lemma html_fetch_object_Inr:
  "html_fetch_object e url b it w h bg c = Inr (ok, c') \<longleftrightarrow>
   ok = malloc_ok e (allocs c) \<and>
   c' = (if ok
         then c\<lparr>allocs := Suc (allocs c),
                fetches := fetches c @ [\<lparr>f_url = url, f_box = b, f_image_types = it,
                  f_width = w, f_height = h, f_background = bg\<rparr>]\<rparr>
         else c\<lparr>allocs := Suc (allocs c)\<rparr>)"
  by (auto simp: html_fetch_object_def bnd_Inr_iff try_alloc_Inr modify_Inr ret_Inr)







subsection \<open>Hidden inputs\<close>


lemma form_new_control_Inr:
  "form_new_control e t c = Inr (g, c') \<longleftrightarrow>
   malloc_ok e (allocs c) \<and> g = length (gadgets c) \<and>
   c' = c\<lparr>allocs := Suc (allocs c), gadgets := gadgets c @ [Some (new_control t)]\<rparr>"
  by (auto simp: form_new_control_def bnd_Inr_iff alloc_Inr)

lemma set_gadget_Inr: "set_gadget g f c = Inr (u, c') \<longleftrightarrow> c' = upd_gadget g f c"
  by (auto simp: set_gadget_def modify_def)

lemma form_add_control_Inr:
  "form_add_control fm g c = Inr (u, c') \<longleftrightarrow>
   c' = (upd_gadget g (\<lambda>x. x\<lparr>g_form := Some fm\<rparr>) c)\<lparr>forms :=
          (forms c)[fm := (forms c ! fm)\<lparr>fm_controls := fm_controls (forms c ! fm) @ [g]\<rparr>]\<rparr>"
  by (auto simp: form_add_control_def bnd_Inr_iff set_gadget_Inr modify_Inr upd_gadget_def)









subsection \<open>Text that squashes to one space\<close>

text \<open>Claim C4. For a text node under white-space normal or nowrap whose squashed content
  is exactly one space, \<^verbatim>\<open>box_construct_text\<close> makes no box and leaves the inline
  container slot as it is; if there is a current inline container (which has a last
  child), the space flag of its last child is set, and nothing else of the pool changes.\<close>

theorem text_single_space:
  assumes "white_space parent_style = CSS_WHITE_SPACE_NORMAL \<or>
           white_space parent_style = CSS_WHITE_SPACE_NOWRAP"
    and "squash content = '' ''"
    and "malloc_ok e (allocs c)"
    and "\<forall>i. inline_container = Some i \<longrightarrow> b_children (boxes c ! i) \<noteq> []"
  shows "\<exists>c'. box_construct_text e content parent_style parent inline_container status c =
           Inr (inline_container, c') \<and>
         length (boxes c') = length (boxes c) \<and>
         boxes c' =
           (case inline_container of
              None \<Rightarrow> boxes c
            | Some i \<Rightarrow>
                (boxes c)[last (b_children (boxes c ! i)) :=
                  (boxes c ! last (b_children (boxes c ! i)))\<lparr>b_space := True\<rparr>]) \<and>
         gadgets c' = gadgets c \<and> forms c' = forms c \<and> fetches c' = fetches c"
  using assms
  by (cases inline_container)
    (auto simp: box_construct_text_def squash_whitespace_def bnd_def alloc_def ret_def
      gets_def set_box_def modify_def upd_box_def)

theorem text_single_space_witness:
  "(white_space test_style = CSS_WHITE_SPACE_NORMAL \<or>
    white_space test_style = CSS_WHITE_SPACE_NOWRAP) \<and>
   squash ''  '' = '' '' \<and>
   malloc_ok test_env (allocs container_content) \<and>
   b_children (boxes container_content ! 1) = [2] \<and>
   (\<exists>c'. box_construct_text test_env ''  '' test_style 0 (Some 1) no_status container_content =
           Inr (Some 1, c') \<and>
         length (boxes c') = 3 \<and>
         boxes c' = (boxes container_content)[2 := (boxes container_content ! 2)\<lparr>b_space := True\<rparr>])"
proof -
  have h1: "white_space test_style = CSS_WHITE_SPACE_NORMAL \<or>
            white_space test_style = CSS_WHITE_SPACE_NOWRAP"
    by (simp add: test_style_def)
  have h2: "squash ''  '' = '' ''"
    by (simp add: is_blank_def)
  have h3: "malloc_ok test_env (allocs container_content)"
    by (simp add: test_env_def)
  have ch: "b_children (boxes container_content ! 1) = [2]"
    by (simp add: container_content_def test_content_def)
  have h4: "\<forall>i. Some (1::nat) = Some i \<longrightarrow> b_children (boxes container_content ! i) \<noteq> []"
    using ch by simp
  from text_single_space [OF h1 h2 h3 h4, of 0 no_status]
  obtain c' where
    r: "box_construct_text test_env ''  '' test_style 0 (Some 1) no_status container_content =
          Inr (Some 1, c')"
    and l: "length (boxes c') = length (boxes container_content)"
    and b: "boxes c' =
        (boxes container_content)[last (b_children (boxes container_content ! 1)) :=
          (boxes container_content ! last (b_children (boxes container_content ! 1)))
            \<lparr>b_space := True\<rparr>]"
    by auto
  have "length (boxes c') = 3"
    using l by (simp add: container_content_def test_content_def)
  moreover have "boxes c' =
      (boxes container_content)[2 := (boxes container_content ! 2)\<lparr>b_space := True\<rparr>]"
    using b ch by simp
  ultimately show ?thesis
    using h1 h2 h3 ch r by blast
qed

subsection \<open>A select without options\<close>

lemma bnd_ret: "bnd (ret x) f = f x"
  by (simp add: bnd_def ret_def)

lemma select_optgroup_none:
  "\<forall>c2 \<in> set cs. node_name c2 \<noteq> ''option'' \<Longrightarrow> select_optgroup e g cs = ret ()"
  by (induction cs) (simp_all add: bnd_ret)

lemma select_children_none:
  "\<forall>c \<in> set cs. node_name c \<noteq> ''option'' \<and>
     (\<forall>c2 \<in> set (node_children c). node_name c2 \<noteq> ''option'') \<Longrightarrow>
   select_children e g cs = ret ()"
  by (induction cs) (simp_all add: bnd_ret select_optgroup_none)

lemma child_descendant: "c \<in> set (node_children n) \<Longrightarrow> c \<in> set (descendants n)"
  by (cases n) auto

lemma grandchild_descendant:
  "c \<in> set (node_children n) \<Longrightarrow> c2 \<in> set (node_children c) \<Longrightarrow> c2 \<in> set (descendants n)"
  using child_descendant [of c2 c] by (cases n) auto

lemma box_select_no_options:
  assumes "select_children e (length (gadgets c)) (node_children n) = ret ()"
    and "malloc_ok e (allocs c)"
  shows "box_select e n status style c =
     Inr ((\<lparr>res_box = None, res_convert_children = False\<rparr>, status),
          c\<lparr>allocs := Suc (allocs c), gadgets := gadgets c @ [None]\<rparr>)"
  using assms
  by (simp add: box_select_def form_new_control_def bnd_def alloc_def set_gadget_def
      modify_def upd_gadget_def ret_def get_gadget_def new_control_def form_free_control_def
      result_def)

lemma element_title_id_total:
  assumes "\<forall>k. malloc_ok e k"
  shows "\<exists>title ident status2 c1. element_title_id e n status c =
           Inr ((title, ident, status2), c1) \<and> only_allocs c c1"
  using assms
  by (cases "xmlGetProp n ''title''"; cases "xmlGetProp n ''id''")
    (simp_all add: element_title_id_def squash_whitespace_def bnd_def alloc_def ret_def
      only_allocs_def)

text \<open>Claim C6. For a select element with no option among its descendants (and a computed
  display other than none, so that the special case function is run), construction,
  memory permitting, returns without error and with the inline container slot as it was;
  no box is made and no box is changed, so the child list of the parent is as before; the
  control that was made for the select is freed, and no fetch is requested.\<close>

theorem select_without_options:
  assumes "node_name n = ''select''"
    and "\<forall>d \<in> set (descendants n). node_name d \<noteq> ''option''"
    and "box_get_style e parent_style n = Some style"
    and "display style \<noteq> CSS_DISPLAY_NONE"
    and "\<forall>k. malloc_ok e k"
  shows "\<exists>c'. box_construct_element e conv n parent_style parent inline_container status c =
           Inr (inline_container, c') \<and>
         boxes c' = boxes c \<and> gadgets c' = gadgets c @ [None] \<and> forms c' = forms c \<and>
         fetches c' = fetches c"
proof -
  obtain title ident status2 c1 where
    t: "element_title_id e n status c = Inr ((title, ident, status2), c1)"
    and a: "only_allocs c c1"
    using element_title_id_total [OF assms(5)] by blast
  have f: "boxes c1 = boxes c" "gadgets c1 = gadgets c" "forms c1 = forms c"
    "fetches c1 = fetches c"
    using only_allocs_fields [OF a] by simp_all
  have "\<forall>ch \<in> set (node_children n). node_name ch \<noteq> ''option'' \<and>
     (\<forall>c2 \<in> set (node_children ch). node_name c2 \<noteq> ''option'')"
    using assms(2) child_descendant grandchild_descendant by blast
  then have sc: "select_children e (length (gadgets c1)) (node_children n) = ret ()"
    by (rule select_children_none)
  have m: "malloc_ok e (allocs c1)"
    using assms(5) by simp
  have tab: "element_table (node_name n) = Some box_select"
    using assms(1) by (simp add: element_table_def)
  have "box_construct_element e conv n parent_style parent inline_container status c =
        Inr (inline_container, c1\<lparr>allocs := Suc (allocs c1), gadgets := gadgets c1 @ [None]\<rparr>)"
    using assms(3,4) t tab box_select_no_options [OF sc m, of status2 style]
    by (simp add: box_construct_element_def element_box_def bnd_def element_end_def ret_def)
  then show ?thesis
    using f by simp
qed

theorem select_without_options_witness:
  "node_name empty_select_node = ''select'' \<and>
   descendants empty_select_node =
     [XML_ELEMENT_NODE ''optgroup'' [] [XML_TEXT_NODE ''x''], XML_TEXT_NODE ''x''] \<and>
   box_get_style test_env test_style empty_select_node = Some test_style \<and>
   display test_style \<noteq> CSS_DISPLAY_NONE \<and>
   (\<forall>k. malloc_ok test_env k) \<and>
   (\<exists>c'. box_construct_element test_env (convert_xml_to_box test_env) empty_select_node
            test_style 0 None form_status form_content = Inr (None, c') \<and>
         boxes c' = [root_box] \<and> gadgets c' = [None] \<and> fetches c' = [])"
proof -
  have h1: "node_name empty_select_node = ''select''"
    by (simp add: empty_select_node_def)
  have d: "descendants empty_select_node =
     [XML_ELEMENT_NODE ''optgroup'' [] [XML_TEXT_NODE ''x''], XML_TEXT_NODE ''x'']"
    by (simp add: empty_select_node_def)
  have h2: "\<forall>d \<in> set (descendants empty_select_node). node_name d \<noteq> ''option''"
    unfolding d by simp
  have h3: "box_get_style test_env test_style empty_select_node = Some test_style"
    by (simp add: test_env_def)
  have h4: "display test_style \<noteq> CSS_DISPLAY_NONE"
    by (simp add: test_style_def)
  have h5: "\<forall>k. malloc_ok test_env k"
    by (simp add: test_env_def)
  have c: "boxes form_content = [root_box]" "gadgets form_content = []"
    "fetches form_content = []"
    by (simp_all add: form_content_def test_content_def)
  from select_without_options [OF h1 h2 h3 h4 h5, of "convert_xml_to_box test_env" 0 None
      form_status form_content]
  obtain c' where
    "box_construct_element test_env (convert_xml_to_box test_env) empty_select_node
       test_style 0 None form_status form_content = Inr (None, c') \<and>
     boxes c' = [root_box] \<and> gadgets c' = [None] \<and> fetches c' = []"
    unfolding c by auto
  then show ?thesis
    using h1 d h3 h4 h5 by blast
qed

subsection \<open>The structural invariant: steps on the pool\<close>

lemma box_add_child_Inr:
  "box_add_child p ch c = Inr (u, c') \<longleftrightarrow> c' = c\<lparr>boxes := add_child p ch (boxes c)\<rparr>"
  by (auto simp: box_add_child_def bnd_Inr_iff set_box_Inr upd_box_def add_child_def Let_def)

lemma length_add_child: "length (add_child p ch bs) = length bs"
  by (simp add: add_child_def Let_def)

lemma nth_add_child:
  "i < length bs \<Longrightarrow>
   b_type (add_child p ch bs ! i) = b_type (bs ! i) \<and>
   b_columns (add_child p ch bs ! i) = b_columns (bs ! i) \<and>
   b_rows (add_child p ch bs ! i) = b_rows (bs ! i) \<and>
   b_children (add_child p ch bs ! i) =
     (if i = p then b_children (bs ! p) @ [ch] else b_children (bs ! i))"
  by (cases "i = p"; cases "i = ch") (simp_all add: add_child_def Let_def)

lemma ext_refl: "ext bs bs"
  by (simp add: ext_def)

lemma ext_length: "ext bs bs' \<Longrightarrow> length bs \<le> length bs'"
  by (simp add: ext_def)

lemma ext_old:
  "ext bs bs' \<Longrightarrow> i < length bs \<Longrightarrow>
   b_type (bs' ! i) = b_type (bs ! i) \<and> b_columns (bs' ! i) = b_columns (bs ! i) \<and>
   b_rows (bs' ! i) = b_rows (bs ! i) \<and>
   (b_children (bs ! i) \<noteq> [] \<longrightarrow> b_children (bs' ! i) \<noteq> [])"
  by (simp add: ext_def)

lemma extI:
  assumes "length bs \<le> length bs'"
    and "\<And>i. i < length bs \<Longrightarrow>
           b_type (bs' ! i) = b_type (bs ! i) \<and> b_columns (bs' ! i) = b_columns (bs ! i) \<and>
           b_rows (bs' ! i) = b_rows (bs ! i) \<and>
           (b_children (bs ! i) \<noteq> [] \<longrightarrow> b_children (bs' ! i) \<noteq> [])"
  shows "ext bs bs'"
  using assms unfolding ext_def by blast

lemma ext_trans:
  assumes a: "ext bs1 bs2" and b: "ext bs2 bs3"
  shows "ext bs1 bs3"
proof (rule extI)
  show "length bs1 \<le> length bs3"
    using ext_length [OF a] ext_length [OF b] by simp
next
  fix i
  assume i: "i < length bs1"
  then have i2: "i < length bs2"
    using ext_length [OF a] by simp
  show "b_type (bs3 ! i) = b_type (bs1 ! i) \<and> b_columns (bs3 ! i) = b_columns (bs1 ! i) \<and>
        b_rows (bs3 ! i) = b_rows (bs1 ! i) \<and>
        (b_children (bs1 ! i) \<noteq> [] \<longrightarrow> b_children (bs3 ! i) \<noteq> [])"
    using ext_old [OF a i] ext_old [OF b i2] by simp
qed

lemma grows_refl: "grows bs bs"
  by (simp add: grows_def ext_refl)

lemma grows_trans: "grows bs1 bs2 \<Longrightarrow> grows bs2 bs3 \<Longrightarrow> grows bs1 bs3"
  unfolding grows_def using ext_trans by blast

text \<open>A new childless box.\<close>

lemma tree_ok_append:
  assumes "tree_ok bs" and "b_children x = []"
  shows "tree_ok (bs @ [x])"
  unfolding tree_ok_def
proof (intro allI impI ballI)
  fix p ch
  assume p: "p < length (bs @ [x])" and ch: "ch \<in> set (b_children ((bs @ [x]) ! p))"
  have pl: "p < length bs"
    using p ch assms(2) by (cases "p = length bs") auto
  then have c: "ch \<in> set (b_children (bs ! p))"
    using ch by (simp add: nth_append)
  then have "ch < length bs" "edge_ok (b_type (bs ! p)) (b_type (bs ! ch))"
    using assms(1) pl unfolding tree_ok_def by blast+
  then show "ch < length (bs @ [x]) \<and>
      edge_ok (b_type ((bs @ [x]) ! p)) (b_type ((bs @ [x]) ! ch))"
    using pl by (simp add: nth_append)
qed

lemma ext_append: "ext bs (bs @ xs)"
  by (rule extI) (simp_all add: nth_append)

text \<open>An assignment to a field of a box that leaves its kind and its children.\<close>

lemma tree_ok_update:
  assumes "tree_ok bs" and "b_type y = b_type (bs ! b)" and "b_children y = b_children (bs ! b)"
  shows "tree_ok (bs[b := y])"
  unfolding tree_ok_def
proof (intro allI impI ballI)
  fix p ch
  assume p: "p < length (bs[b := y])" and ch: "ch \<in> set (b_children (bs[b := y] ! p))"
  have pl: "p < length bs" using p by simp
  have t: "\<And>i. i < length bs \<Longrightarrow> b_type (bs[b := y] ! i) = b_type (bs ! i) \<and>
      b_children (bs[b := y] ! i) = b_children (bs ! i)"
  proof -
    fix i assume "i < length bs"
    then show "b_type (bs[b := y] ! i) = b_type (bs ! i) \<and>
      b_children (bs[b := y] ! i) = b_children (bs ! i)"
      using assms(2,3) by (cases "i = b") simp_all
  qed
  have c: "ch \<in> set (b_children (bs ! p))"
    using ch t [OF pl] by simp
  then have e: "ch < length bs" "edge_ok (b_type (bs ! p)) (b_type (bs ! ch))"
    using assms(1) pl unfolding tree_ok_def by blast+
  then show "ch < length (bs[b := y]) \<and>
      edge_ok (b_type (bs[b := y] ! p)) (b_type (bs[b := y] ! ch))"
    using t [OF pl] t [OF e(1)] by simp
qed

text \<open>An assignment to a field of a box made since \<open>bs0\<close>, children left as they are.\<close>

lemma ext_update_new:
  assumes "ext bs0 bs" and "length bs0 \<le> b" and "b_children y = b_children (bs ! b)"
  shows "ext bs0 (bs[b := y])"
proof (rule extI)
  show "length bs0 \<le> length (bs[b := y])"
    using ext_length [OF assms(1)] by simp
next
  fix i assume i: "i < length bs0"
  then have "i \<noteq> b" using assms(2) by simp
  then show "b_type (bs[b := y] ! i) = b_type (bs0 ! i) \<and>
      b_columns (bs[b := y] ! i) = b_columns (bs0 ! i) \<and>
      b_rows (bs[b := y] ! i) = b_rows (bs0 ! i) \<and>
      (b_children (bs0 ! i) \<noteq> [] \<longrightarrow> b_children (bs[b := y] ! i) \<noteq> [])"
    using ext_old [OF assms(1) i] by simp
qed

text \<open>An assignment that leaves kind, span counts and children of the box.\<close>

lemma ext_update_quiet:
  assumes "ext bs0 bs" and "b_type y = b_type (bs ! b)" and "b_children y = b_children (bs ! b)"
    and "b_columns y = b_columns (bs ! b)" and "b_rows y = b_rows (bs ! b)"
  shows "ext bs0 (bs[b := y])"
proof (rule extI)
  show "length bs0 \<le> length (bs[b := y])"
    using ext_length [OF assms(1)] by simp
next
  fix i assume i: "i < length bs0"
  then have "i < length bs" using ext_length [OF assms(1)] by simp
  then show "b_type (bs[b := y] ! i) = b_type (bs0 ! i) \<and>
      b_columns (bs[b := y] ! i) = b_columns (bs0 ! i) \<and>
      b_rows (bs[b := y] ! i) = b_rows (bs0 ! i) \<and>
      (b_children (bs0 ! i) \<noteq> [] \<longrightarrow> b_children (bs[b := y] ! i) \<noteq> [])"
    using ext_old [OF assms(1) i] assms(2-5) by (cases "i = b") simp_all
qed

text \<open>\<^verbatim>\<open>box_add_child\<close> of a child that is in order under its parent.\<close>

lemma tree_ok_add_child:
  assumes "tree_ok bs" and "p < length bs" and "ch < length bs"
    and "edge_ok (b_type (bs ! p)) (b_type (bs ! ch))"
  shows "tree_ok (add_child p ch bs)"
  unfolding tree_ok_def
proof (intro allI impI ballI)
  fix q x
  assume q: "q < length (add_child p ch bs)"
    and x: "x \<in> set (b_children (add_child p ch bs ! q))"
  have ql: "q < length bs" using q by (simp add: length_add_child)
  have "x < length bs \<and> edge_ok (b_type (bs ! q)) (b_type (bs ! x))"
  proof (cases "q = p \<and> x = ch")
    case True
    then show ?thesis using assms by simp
  next
    case False
    then have "x \<in> set (b_children (bs ! q))"
      using x nth_add_child [OF ql, of p ch] by (auto split: if_split_asm)
    then show ?thesis
      using assms(1) ql unfolding tree_ok_def by blast
  qed
  then show "x < length (add_child p ch bs) \<and>
      edge_ok (b_type (add_child p ch bs ! q)) (b_type (add_child p ch bs ! x))"
    using ql nth_add_child [of q bs p ch] nth_add_child [of x bs p ch]
    by (simp add: length_add_child)
qed

lemma ext_add_child:
  assumes "ext bs0 bs"
  shows "ext bs0 (add_child p ch bs)"
proof (rule extI)
  show "length bs0 \<le> length (add_child p ch bs)"
    using ext_length [OF assms(1)] by (simp add: length_add_child)
next
  fix i assume i: "i < length bs0"
  then have "i < length bs"
    using ext_length [OF assms(1)] by simp
  then show "b_type (add_child p ch bs ! i) = b_type (bs0 ! i) \<and>
      b_columns (add_child p ch bs ! i) = b_columns (bs0 ! i) \<and>
      b_rows (add_child p ch bs ! i) = b_rows (bs0 ! i) \<and>
      (b_children (bs0 ! i) \<noteq> [] \<longrightarrow> b_children (add_child p ch bs ! i) \<noteq> [])"
    using nth_add_child [of i bs p ch] ext_old [OF assms(1) i] by simp
qed

subsection \<open>Preformatted text\<close>

lemma two_lines_run:
  "box_construct_text test_env two_lines pre_style 0 None no_status form_content =
     Inr (Some 3, two_lines_content)"
  by (simp add: box_construct_text_def pre_style_def test_style_def cnv_space2nbsp_def
      space2nbsp_def two_lines_def bnd_def alloc_def ret_def test_env_def form_content_def
      test_content_def strcspn_crlf_def make_container_def box_create_def set_box_def
      modify_def upd_box_def box_add_child_def strdup_def two_lines_content_def new_box_def
      root_box_def no_status_def)


lemma strcspn_drop: "drop (strcspn_crlf s) s = dropWhile (\<lambda>c. c \<noteq> CHR 0x0D \<and> c \<noteq> CHR 0x0A) s"
  by (simp add: strcspn_crlf_def dropWhile_eq_drop)

lemma strcspn_take: "take (strcspn_crlf s) s = takeWhile (\<lambda>c. c \<noteq> CHR 0x0D \<and> c \<noteq> CHR 0x0A) s"
  unfolding strcspn_crlf_def by (rule takeWhile_eq_take [symmetric])

lemma no_eol_left: "drop (strcspn_crlf s) s = [] \<Longrightarrow> \<not> ends_eol s"
  unfolding strcspn_drop ends_eol_def dropWhile_eq_Nil_conv
  using last_in_set by blast

lemma eol_at_end:
  assumes "drop (strcspn_crlf s) s = x # rest" and "skip_eol (x # rest) = []"
  shows "ends_eol s"
proof -
  have s: "s = takeWhile (\<lambda>c. c \<noteq> CHR 0x0D \<and> c \<noteq> CHR 0x0A) s @ x # rest"
    and x: "x = CHR 0x0D \<or> x = CHR 0x0A"
    using assms(1) unfolding strcspn_drop dropWhile_eq_Cons_conv by auto
  have "rest = [] \<or> rest = [CHR 0x0A]"
    using assms(2) by (cases rest) (auto split: if_split_asm)
  then have "last (x # rest) = CHR 0x0D \<or> last (x # rest) = CHR 0x0A"
    using x by auto
  moreover have "last s = last (x # rest)"
    by (subst s) simp
  moreover have "s \<noteq> []"
    using s by auto
  ultimately show ?thesis
    by (simp add: ends_eol_def)
qed

lemma eol_after_skip:
  assumes "drop n s = x # rest" and "skip_eol (x # rest) \<noteq> []"
  shows "ends_eol (skip_eol (x # rest)) = ends_eol s"
proof -
  have s: "s = take n s @ x # rest"
    using assms(1) by (metis append_take_drop_id)
  obtain y r where r: "rest = y # r"
    using assms(2) by (cases rest) auto
  have "last (skip_eol (x # rest)) = last (x # rest)"
    using assms(2) r by (auto split: if_split_asm)
  moreover have "last s = last (x # rest)"
    by (subst s) simp
  moreover have "s \<noteq> []"
    using s by auto
  ultimately show ?thesis
    using assms(2) by (simp add: ends_eol_def)
qed

lemma view_add_child_new:
  "map box_view (add_child p (length bs) (bs @ [x])) =
   map box_view bs @ [(b_type x, b_text x, b_length x, Some p)]"
  by (rule nth_equalityI)
    (auto simp: add_child_def Let_def nth_append box_view_def nth_list_update)

lemma view_last:
  "map box_view bs = xs @ [(t, x, l, p)] \<Longrightarrow> bs \<noteq> [] \<and> b_parent (last bs) = p"
proof -
  assume a: "map box_view bs = xs @ [(t, x, l, p)]"
  then have ne: "bs \<noteq> []" by auto
  then have "box_view (last bs) = last (map box_view bs)"
    by (simp add: last_map)
  then show ?thesis
    using a ne by (simp add: box_view_def)
qed

lemma make_container_view:
  "make_container e parent ic c = Inr (i, c0) \<Longrightarrow>
   (case ic of
      Some j \<Rightarrow> i = j \<and> boxes c0 = boxes c
    | None \<Rightarrow>
        i = length (boxes c) \<and>
        map box_view (boxes c0) =
          map box_view (boxes c) @ [(BOX_INLINE_CONTAINER, None, 0, Some parent)])"
  using view_add_child_new [of parent "boxes c"
      "(new_box None None None None)\<lparr>b_type := BOX_INLINE_CONTAINER\<rparr>"]
  by (cases ic)
    (auto simp: make_container_def bnd_Inr_iff ret_Inr box_create_Inr_iff set_box_Inr
      upd_box_def box_add_child_Inr new_box_def)

lemma pre_lines_view:
  "pre_lines e ps st parent ic cur c = Inr (ic', c') \<Longrightarrow>
   map box_view (boxes c') =
     map box_view (boxes c) @ pre_boxes parent (length (boxes c)) ic (pre_segments cur) \<and>
   boxes c' \<noteq> [] \<and>
   ic' = (if ends_eol cur then None else b_parent (last (boxes c')))"
proof (induction e ps st parent ic cur arbitrary: c rule: pre_lines.induct)
  case (1 e ps st parent ic cur)
  define len where "len = strcspn_crlf cur"
  define x where "x = (new_box (Some ps) (st_href st) None None)\<lparr>b_type := BOX_INLINE,
    b_style_clone := True, b_text := Some (take len cur), b_length := length (take len cur)\<rparr>"
  from "1.prems" [unfolded pre_lines.simps [of e ps st parent ic cur] Let_def]
  obtain i c0 where
    mk: "make_container e parent ic c = Inr (i, c0)"
    and rest0: "(case drop len cur of
                  [] \<Rightarrow> ret (Some i)
                | x # rest \<Rightarrow>
                    if skip_eol (x # rest) = [] then ret None
                    else pre_lines e ps st parent None (skip_eol (x # rest)))
                 (c0\<lparr>allocs := Suc (Suc (allocs c0)),
                     boxes := add_child i (length (boxes c0)) (boxes c0 @ [x])\<rparr>) =
               Inr (ic', c')"
    by (auto simp: len_def x_def bnd_Inr_iff box_create_Inr_iff set_box_Inr upd_box_def
        strdup_Inr box_add_child_Inr simp del: pre_lines.simps)
  define c1 where "c1 = c0\<lparr>allocs := Suc (Suc (allocs c0)),
    boxes := add_child i (length (boxes c0)) (boxes c0 @ [x])\<rparr>"
  have c1: "boxes c1 = add_child i (length (boxes c0)) (boxes c0 @ [x])"
    by (simp add: c1_def)
  have x: "b_type x = BOX_INLINE" "b_text x = Some (take len cur)"
    "b_length x = length (take len cur)"
    by (simp_all add: x_def)
  note rest = rest0 [folded c1_def]
  note v0 = make_container_view [OF mk]
  have v1: "map box_view (boxes c1) =
      map box_view (boxes c0) @ [(BOX_INLINE, Some (take len cur), length (take len cur), Some i)]"
    using c1 x view_add_child_new [of i "boxes c0" x] by simp
  have l0: "length (boxes c0) = (case ic of Some j \<Rightarrow> length (boxes c) | None \<Rightarrow> Suc (length (boxes c)))"
    using v0 by (cases ic) (auto dest: arg_cong [where f = length])
  have l1: "length (boxes c1) = Suc (length (boxes c0))"
    using c1 by (simp add: length_add_child)
  have seg: "pre_segments cur =
      (case drop len cur of
         [] \<Rightarrow> [take len cur]
       | x # rest \<Rightarrow>
           if skip_eol (x # rest) = [] then [take len cur]
           else take len cur # pre_segments (skip_eol (x # rest)))"
    unfolding len_def
    by (subst pre_segments.simps) (simp add: Let_def del: pre_segments.simps)
  show ?case
  proof (cases "drop len cur")
    case Nil
    then have fin: "ic' = Some i" "c' = c1"
      using rest by (simp_all add: ret_Inr)
    have ne: "\<not> ends_eol cur"
      using Nil no_eol_left unfolding len_def by blast
    have segs: "pre_segments cur = [take len cur]"
      using seg Nil by simp
    show ?thesis
      unfolding fin segs using v0 v1 ne view_last [OF v1]
      by (cases ic) simp_all
  next
    case (Cons y rest')
    show ?thesis
    proof (cases "skip_eol (y # rest') = []")
      case True
      then have fin: "ic' = None" "c' = c1"
        using rest Cons by (simp_all add: ret_Inr)
      have ee: "ends_eol cur"
        using Cons True eol_at_end unfolding len_def by blast
      have segs: "pre_segments cur = [take len cur]"
        using seg Cons True by simp
      show ?thesis
        unfolding fin segs using v0 v1 ee view_last [OF v1]
        by (cases ic) simp_all
    next
      case False
      then have rec: "pre_lines e ps st parent None (skip_eol (y # rest')) c1 = Inr (ic', c')"
        using rest Cons by simp
      have d: "drop (strcspn_crlf cur) cur = y # rest'"
        using Cons by (simp add: len_def)
      note ih = "1.IH" [OF refl d False rec]
      have ee: "ends_eol (skip_eol (y # rest')) = ends_eol cur"
        using eol_after_skip [OF d False] .
      have segs: "pre_segments cur = take len cur # pre_segments (skip_eol (y # rest'))"
        using seg Cons False by simp
      show ?thesis
        unfolding segs using ih v0 v1 l0 l1 ee
        by (cases ic) simp_all
    qed
  qed
qed

lemma pre_boxes_kinds:
  "fst ` set (pre_boxes parent k ic segs) \<subseteq> {BOX_INLINE_CONTAINER, BOX_INLINE}"
  by (induction segs arbitrary: k ic) (auto split: option.split)

lemma pre_segments_no_eol:
  "seg \<in> set (pre_segments s) \<Longrightarrow> CHR 0x0D \<notin> set seg \<and> CHR 0x0A \<notin> set seg"
proof (induction s rule: pre_segments.induct)
  case (1 current)
  have t: "CHR 0x0D \<notin> set (take (strcspn_crlf current) current) \<and>
           CHR 0x0A \<notin> set (take (strcspn_crlf current) current)"
    unfolding strcspn_take using set_takeWhileD by fastforce
  from "1.prems" [unfolded pre_segments.simps [of current] Let_def] t "1.IH" show ?case
    by (auto split: list.split_asm if_split_asm simp del: pre_segments.simps)
qed


text \<open>Claim C3, as stated, fails: no LineBreak box is made for a line boundary. For the
  text \<^verbatim>\<open>a\<close>, LF, \<^verbatim>\<open>b\<close> under white-space: pre, below a root without a current inline
  container, the pool after \<^verbatim>\<open>box_construct_text\<close> holds the root, a container with
  the text box \<^verbatim>\<open>a\<close> and a second container with the text box \<^verbatim>\<open>b\<close>.\<close>

theorem pre_text_no_line_break_counterexample:
  "box_construct_text test_env two_lines pre_style 0 None no_status form_content =
     Inr (Some 3, two_lines_content) \<and>
   map b_type (boxes two_lines_content) =
     [BOX_BLOCK, BOX_INLINE_CONTAINER, BOX_INLINE, BOX_INLINE_CONTAINER, BOX_INLINE]"
  using two_lines_run
  by (simp add: two_lines_content_def form_content_def test_content_def root_box_def
      new_box_def)

text \<open>Claim C3, amended. For every text node under white-space pre, pre-line or
  pre-wrap, \<^verbatim>\<open>box_construct_text\<close> (when it succeeds) splits the text, with hard spaces
  and transformed, into the segments of \<open>pre_segments\<close>: the pieces between line ends CR,
  LF or CR LF, without an empty piece after a line end that ends the text. The boxes
  made are, in order, for each segment an Inline text box with the segment as its text
  (of length 0 for an empty segment), preceded by a new InlineContainer under the parent
  which holds it, except that the first segment goes into the current inline container
  when there is one. No LineBreak box is made: a line boundary shows only as the change
  of container. The container slot is left empty if the text ends with a line end, and
  else holds the container of the last text box.\<close>

theorem pre_text_boxes:
  assumes "white_space parent_style \<noteq> CSS_WHITE_SPACE_NORMAL"
    and "white_space parent_style \<noteq> CSS_WHITE_SPACE_NOWRAP"
    and "box_construct_text e content parent_style parent inline_container status c =
         Inr (ic', c')"
  shows "map box_view (boxes c') =
           map box_view (boxes c) @
           pre_boxes parent (length (boxes c)) inline_container
             (pre_segments (pre_text parent_style content)) \<and>
         BOX_BR \<notin> set (map b_type (drop (length (boxes c)) (boxes c'))) \<and>
         ic' = (if ends_eol (pre_text parent_style content) then None
                else b_parent (last (boxes c')))"
proof -
  have b: "boxes (c\<lparr>allocs := Suc (allocs c)\<rparr>) = boxes c"
    by simp
  from assms have
    run: "pre_lines e parent_style status parent inline_container
            (pre_text parent_style content) (c\<lparr>allocs := Suc (allocs c)\<rparr>) = Inr (ic', c')"
    by (auto simp: box_construct_text_def cnv_space2nbsp_def bnd_Inr_iff alloc_Inr ret_Inr
        pre_text_def Let_def simp del: pre_lines.simps)
  note v = pre_lines_view [OF run, unfolded b]
  let ?new = "pre_boxes parent (length (boxes c)) inline_container
                (pre_segments (pre_text parent_style content))"
  have "map box_view (drop (length (boxes c)) (boxes c')) =
        drop (length (boxes c)) (map box_view (boxes c'))"
    by (simp add: drop_map)
  also have "\<dots> = ?new"
    using v by simp
  finally have d: "map box_view (drop (length (boxes c)) (boxes c')) = ?new" .
  have "map b_type (drop (length (boxes c)) (boxes c')) =
        map fst (map box_view (drop (length (boxes c)) (boxes c')))"
    by (simp add: box_view_def)
  then have "set (map b_type (drop (length (boxes c)) (boxes c'))) = fst ` set ?new"
    unfolding d by simp
  then have "BOX_BR \<notin> set (map b_type (drop (length (boxes c)) (boxes c')))"
    using pre_boxes_kinds [of parent "length (boxes c)" inline_container
        "pre_segments (pre_text parent_style content)"]
    by auto
  then show ?thesis
    using v by simp
qed

theorem pre_text_boxes_witness:
  "white_space pre_style \<noteq> CSS_WHITE_SPACE_NORMAL \<and>
   white_space pre_style \<noteq> CSS_WHITE_SPACE_NOWRAP \<and>
   box_construct_text test_env two_lines pre_style 0 None no_status form_content =
     Inr (Some 3, two_lines_content) \<and>
   pre_segments (pre_text pre_style two_lines) = [''a'', ''b''] \<and>
   map box_view (boxes two_lines_content) =
     map box_view (boxes form_content) @
     [(BOX_INLINE_CONTAINER, None, 0, Some 0), (BOX_INLINE, Some ''a'', 1, Some 1),
      (BOX_INLINE_CONTAINER, None, 0, Some 0), (BOX_INLINE, Some ''b'', 1, Some 3)] \<and>
   BOX_BR \<notin> set (map b_type (drop (length (boxes form_content)) (boxes two_lines_content))) \<and>
   Some 3 = b_parent (last (boxes two_lines_content))"
proof -
  have h1: "white_space pre_style \<noteq> CSS_WHITE_SPACE_NORMAL"
    and h2: "white_space pre_style \<noteq> CSS_WHITE_SPACE_NOWRAP"
    by (simp_all add: pre_style_def)
  have t: "pre_text pre_style two_lines = two_lines"
    by (simp add: pre_text_def pre_style_def test_style_def space2nbsp_def two_lines_def)
  have s: "pre_segments two_lines = [''a'', ''b'']"
    by (simp add: two_lines_def strcspn_crlf_def)
  have e: "\<not> ends_eol two_lines"
    by (simp add: ends_eol_def two_lines_def)
  have l: "length (boxes form_content) = 1"
    by (simp add: form_content_def test_content_def)
  from pre_text_boxes [OF h1 h2 two_lines_run] h1 h2 two_lines_run show ?thesis
    unfolding t s l using e by (simp add: numeral_3_eq_3)
qed

subsection \<open>Framesets: the children taken by the loops\<close>





subsection \<open>Framesets: the pool that the loops leave\<close>

lemma cell_boxes_props:
  assumes "row < length bs"
  shows "length (cell_boxes style row bs) = Suc (Suc (length bs))"
    and "\<And>i. i < length bs \<Longrightarrow> i \<noteq> row \<Longrightarrow> cell_boxes style row bs ! i = bs ! i"
    and "b_type (cell_boxes style row bs ! row) = b_type (bs ! row)"
    and "b_children (cell_boxes style row bs ! row) = b_children (bs ! row) @ [length bs]"
    and "b_type (cell_boxes style row bs ! length bs) = BOX_TABLE_CELL"
    and "b_children (cell_boxes style row bs ! length bs) = [Suc (length bs)]"
    and "b_parent (cell_boxes style row bs ! length bs) = Some row"
    and "b_type (cell_boxes style row bs ! Suc (length bs)) = BOX_BLOCK"
    and "b_children (cell_boxes style row bs ! Suc (length bs)) = []"
    and "b_parent (cell_boxes style row bs ! Suc (length bs)) = Some (length bs)"
  using assms
  by (simp_all add: cell_boxes_def add_child_def Let_def nth_append nth_list_update new_box_def)

lemma row_boxes_props:
  assumes "tbl < length bs"
  shows "length (row_boxes style tbl bs) = Suc (length bs)"
    and "\<And>i. i < length bs \<Longrightarrow> i \<noteq> tbl \<Longrightarrow> row_boxes style tbl bs ! i = bs ! i"
    and "b_type (row_boxes style tbl bs ! tbl) = b_type (bs ! tbl)"
    and "b_children (row_boxes style tbl bs ! tbl) = b_children (bs ! tbl) @ [length bs]"
    and "b_type (row_boxes style tbl bs ! length bs) = BOX_TABLE_ROW"
    and "b_children (row_boxes style tbl bs ! length bs) = []"
    and "b_parent (row_boxes style tbl bs ! length bs) = Some tbl"
  using assms
  by (simp_all add: row_boxes_def add_child_def Let_def nth_append nth_list_update new_box_def)

lemma length_cols_boxes:
  "row < length bs \<Longrightarrow> length (cols_boxes style row m bs) = length bs + 2 * m"
  by (induction m arbitrary: bs) (simp_all add: cell_boxes_props)




lemma length_rows_boxes:
  "tbl < length bs \<Longrightarrow>
   length (rows_boxes style tbl ms bs) = length bs + length ms + 2 * sum_list ms"
  by (induction ms arbitrary: bs) (simp_all add: row_boxes_props length_cols_boxes)



lemma row_indices_bounds:
  "r \<in> set (row_indices l ms) \<Longrightarrow> l \<le> r \<and> r < l + length ms + 2 * sum_list ms"
  by (induction ms arbitrary: l) fastforce+







subsection \<open>Framesets: the loops on frames\<close>







subsection \<open>Frames without a fetch\<close>





subsection \<open>The structural invariant: conversion\<close>

lemma nth_append_len: "length xs = n \<Longrightarrow> (xs @ x # ys) ! n = x"
  by auto

lemma upd_append_len: "length xs = n \<Longrightarrow> (xs @ x # ys)[n := y] = xs @ y # ys"
  by auto

lemma skel_eq_length: "map skel bs = map skel bs' \<Longrightarrow> length bs = length bs'"
  by (rule map_eq_imp_length_eq)

lemma skel_eq_nth:
  assumes "map skel bs = map skel bs'" and "i < length bs"
  shows "b_type (bs ! i) = b_type (bs' ! i) \<and> b_children (bs ! i) = b_children (bs' ! i) \<and>
         b_columns (bs ! i) = b_columns (bs' ! i) \<and> b_rows (bs ! i) = b_rows (bs' ! i)"
proof -
  have "skel (bs ! i) = skel (bs' ! i)"
    using assms by (metis length_map nth_map)
  then show ?thesis
    by (simp add: skel_def)
qed

lemma tree_ok_skel:
  assumes "map skel bs = map skel bs'" and "tree_ok bs"
  shows "tree_ok bs'"
  unfolding tree_ok_def
proof (intro allI impI ballI)
  fix p ch
  assume p: "p < length bs'" and ch: "ch \<in> set (b_children (bs' ! p))"
  note l = skel_eq_length [OF assms(1)]
  have pl: "p < length bs" using p l by simp
  then have "ch \<in> set (b_children (bs ! p))"
    using ch skel_eq_nth [OF assms(1) pl] by simp
  then have e: "ch < length bs" "edge_ok (b_type (bs ! p)) (b_type (bs ! ch))"
    using assms(2) pl unfolding tree_ok_def by blast+
  then show "ch < length bs' \<and> edge_ok (b_type (bs' ! p)) (b_type (bs' ! ch))"
    using l skel_eq_nth [OF assms(1) pl] skel_eq_nth [OF assms(1) e(1)] by simp
qed

lemma skel_ext:
  assumes "map skel bs = map skel bs'"
  shows "ext bs bs'"
proof (rule extI)
  show "length bs \<le> length bs'"
    using skel_eq_length [OF assms] by simp
next
  fix i assume i: "i < length bs"
  show "b_type (bs' ! i) = b_type (bs ! i) \<and> b_columns (bs' ! i) = b_columns (bs ! i) \<and>
        b_rows (bs' ! i) = b_rows (bs ! i) \<and>
        (b_children (bs ! i) \<noteq> [] \<longrightarrow> b_children (bs' ! i) \<noteq> [])"
    using skel_eq_nth [OF assms i] by simp
qed

lemma skel_grows: "map skel bs = map skel bs' \<Longrightarrow> grows bs bs'"
  using skel_ext tree_ok_skel unfolding grows_def by blast

lemma skel_add_child: "map skel (add_child p ch bs) = sk_add_child p ch (map skel bs)"
proof (rule nth_equalityI)
  show "length (map skel (add_child p ch bs)) = length (sk_add_child p ch (map skel bs))"
    by (simp add: length_add_child sk_add_child_def)
next
  fix i assume "i < length (map skel (add_child p ch bs))"
  then have i: "i < length bs"
    by (simp add: length_add_child)
  show "map skel (add_child p ch bs) ! i = sk_add_child p ch (map skel bs) ! i"
    using i nth_add_child [OF i, of p ch]
    by (simp add: length_add_child sk_add_child_def skel_def nth_list_update)
qed

lemma skel_update_id: "(map skel bs)[b := skel (bs ! b)] = map skel bs"
  by (cases "b < length bs") (simp_all add: list_update_same_conv list_update_beyond)

lemma skel_quiet:
  "skel (b\<lparr>b_style := v1\<rparr>) = skel b" "skel (b\<lparr>b_style_clone := v2\<rparr>) = skel b"
  "skel (b\<lparr>b_text := v3\<rparr>) = skel b" "skel (b\<lparr>b_length := v4\<rparr>) = skel b"
  "skel (b\<lparr>b_space := v5\<rparr>) = skel b" "skel (b\<lparr>b_href := v6\<rparr>) = skel b"
  "skel (b\<lparr>b_title := v7\<rparr>) = skel b" "skel (b\<lparr>b_id := v8\<rparr>) = skel b"
  "skel (b\<lparr>b_parent := v9\<rparr>) = skel b" "skel (b\<lparr>b_gadget := v10\<rparr>) = skel b"
  "skel (b\<lparr>b_usemap := v11\<rparr>) = skel b" "skel (b\<lparr>b_object_params := v12\<rparr>) = skel b"
  "skel (b\<lparr>b_col := v13\<rparr>) = skel b" "skel (b\<lparr>b_min_width := v14\<rparr>) = skel b"
  "skel (b\<lparr>b_max_width := v15\<rparr>) = skel b"
  by (simp_all add: skel_def)

lemma skel_new_box: "skel (new_box s h t i) = (BOX_INLINE, [], 1, 1)"
  by (simp add: skel_def new_box_def)

lemma skel_type: "skel (b\<lparr>b_type := t\<rparr>) = (t, snd (skel b))"
  by (simp add: skel_def)

lemma cont_ok_ext: "ext bs bs' \<Longrightarrow> cont_ok bs i \<Longrightarrow> cont_ok bs' i"
  by (auto simp: cont_ok_def ext_def)

lemma ic_ok_ext: "ext bs bs' \<Longrightarrow> ic_ok bs ic \<Longrightarrow> ic_ok bs' ic"
  by (cases ic) (auto simp: ic_ok_def cont_ok_def ext_def)

lemma parent_ok_ext: "ext bs bs' \<Longrightarrow> parent_ok bs p \<Longrightarrow> parent_ok bs' p"
  by (auto simp: parent_ok_def ext_def)

lemma ic_ok_update:
  "ic_ok bs ic \<Longrightarrow> b_type y = b_type (bs ! b) \<Longrightarrow> b_children y = b_children (bs ! b) \<Longrightarrow>
   ic_ok (bs[b := y]) ic"
  by (cases ic; cases "b < length bs")
    (auto simp: ic_ok_def cont_ok_def nth_list_update list_update_beyond)

lemma conv_post_refl: "conv_post bs p ic bs ic"
  by (simp add: conv_post_def ext_refl)

lemma conv_post_trans:
  "conv_post bs p ic bs1 ic1 \<Longrightarrow> conv_post bs1 p ic1 bs2 ic2 \<Longrightarrow> conv_post bs p ic bs2 ic2"
proof -
  assume a: "conv_post bs p ic bs1 ic1" and b: "conv_post bs1 p ic1 bs2 ic2"
  have e1: "ext bs bs1" and e2: "ext bs1 bs2"
    using a b by (simp_all add: conv_post_def)
  have "tree_ok bs2 \<and> ic_ok bs2 ic2" if h: "tree_ok bs" "parent_ok bs p" "ic_ok bs ic"
  proof -
    have "tree_ok bs1" "ic_ok bs1 ic1"
      using a h by (simp_all add: conv_post_def)
    moreover have "parent_ok bs1 p"
      using e1 h(2) by (rule parent_ok_ext)
    ultimately show ?thesis
      using b by (simp add: conv_post_def)
  qed
  then show ?thesis
    using ext_trans [OF e1 e2] by (simp add: conv_post_def)
qed

lemma convert_children_post:
  assumes "\<And>ch ps p ic st c ic' c'. ch \<in> set cs \<Longrightarrow> conv ch ps p ic st c = Inr (ic', c') \<Longrightarrow>
             conv_post (boxes c) p ic (boxes c') ic'"
    and "convert_children conv cs ps p ic st c = Inr (ic', c')"
  shows "conv_post (boxes c) p ic (boxes c') ic'"
  using assms
proof (induction cs arbitrary: ic c)
  case Nil
  then show ?case by (simp add: ret_Inr conv_post_refl)
next
  case (Cons a cs)
  from Cons.prems(2) obtain ic1 c1 where
    a: "conv a ps p ic st c = Inr (ic1, c1)"
    and r: "convert_children conv cs ps p ic1 st c1 = Inr (ic', c')"
    by (auto simp: bnd_Inr_iff)
  have "conv_post (boxes c) p ic (boxes c1) ic1"
    using Cons.prems(1) [OF _ a] by simp
  moreover have "conv_post (boxes c1) p ic1 (boxes c') ic'"
  proof (rule Cons.IH [OF _ r])
    fix ch ps p ic st c ic' c'
    assume "ch \<in> set cs" and "conv ch ps p ic st c = Inr (ic', c')"
    then show "conv_post (boxes c) p ic (boxes c') ic'"
      using Cons.prems(1) [of ch ps p ic st c ic' c'] by simp
  qed
  ultimately show ?case by (rule conv_post_trans)
qed

lemma edge_ok_container: "edge_ok t BOX_INLINE_CONTAINER"
  by (simp add: edge_ok_def)

lemma make_container_Inr:
  "make_container e parent ic c = Inr (i, c0) \<Longrightarrow>
   (case ic of
      Some j \<Rightarrow> i = j \<and> boxes c0 = boxes c
    | None \<Rightarrow>
        i = length (boxes c) \<and>
        boxes c0 = add_child parent (length (boxes c))
          (boxes c @ [(new_box None None None None)\<lparr>b_type := BOX_INLINE_CONTAINER\<rparr>]))"
  by (cases ic)
    (auto simp: make_container_def bnd_Inr_iff ret_Inr box_create_Inr_iff set_box_Inr
      upd_box_def box_add_child_Inr)

lemma make_container_post:
  assumes "make_container e parent ic c = Inr (i, c0)"
  shows "ext (boxes c) (boxes c0) \<and>
         (tree_ok (boxes c) \<and> parent_ok (boxes c) parent \<and> ic_ok (boxes c) ic \<longrightarrow>
            tree_ok (boxes c0) \<and> cont_ok (boxes c0) i)"
proof (cases ic)
  case (Some j)
  then show ?thesis
    using make_container_Inr [OF assms] by (simp add: ext_refl ic_ok_def)
next
  case None
  define x where "x = (new_box None None None None)\<lparr>b_type := BOX_INLINE_CONTAINER\<rparr>"
  define bs where "bs = boxes c"
  have i: "i = length bs" and c0: "boxes c0 = add_child parent (length bs) (bs @ [x])"
    using make_container_Inr [OF assms] None by (simp_all add: x_def bs_def)
  have x: "b_children x = []" "b_type x = BOX_INLINE_CONTAINER"
    by (simp_all add: x_def new_box_def)
  have e: "ext bs (boxes c0)"
    unfolding c0 by (rule ext_add_child [OF ext_append])
  have "tree_ok (boxes c0) \<and> cont_ok (boxes c0) i" if t: "tree_ok bs" and p: "parent_ok bs parent"
  proof -
    have t1: "tree_ok (bs @ [x])"
      using t x(1) by (rule tree_ok_append)
    have pl: "parent < length (bs @ [x])" and il: "length bs < length (bs @ [x])"
      using p by (simp_all add: parent_ok_def)
    have "edge_ok (b_type ((bs @ [x]) ! parent)) (b_type ((bs @ [x]) ! length bs))"
      using x(2) by (simp add: edge_ok_container)
    then have "tree_ok (boxes c0)"
      unfolding c0 using t1 pl il by (intro tree_ok_add_child)
    moreover have "cont_ok (boxes c0) i"
      unfolding c0 i cont_ok_def using nth_add_child [OF il, of parent "length bs"] x(2)
      by (simp add: length_add_child)
    ultimately show ?thesis by simp
  qed
  then show ?thesis
    using e by (simp add: bs_def)
qed

lemma element_end_boxes: "element_end e bo c = Inr (u, c') \<Longrightarrow> boxes c' = boxes c"
  by (auto simp: element_end_def ret_Inr bnd_Inr_iff gets_Inr strdup_Inr
      html_fetch_object_Inr fail_Inr split: option.split_asm if_split_asm)

lemma single_new_post:
  assumes "map skel bs' = map skel bs @ [(t, [], cl, rw)]" and "t \<noteq> BOX_INLINE_CONTAINER"
  shows "handler_post bs (Some (length bs)) bs'"
proof -
  define x where "x = bs' ! length bs"
  have l: "length bs' = Suc (length bs)"
    using assms(1) by (auto dest: arg_cong [where f = length])
  have "skel x = map skel bs' ! length bs"
    unfolding x_def using l by simp
  then have sx: "skel x = (t, [], cl, rw)"
    unfolding assms(1) by (simp add: nth_append)
  then have x: "b_type x = t" "b_children x = []" "b_columns x = cl" "b_rows x = rw"
    by (simp_all add: skel_def)
  have eq: "map skel (bs @ [x]) = map skel bs'"
    using assms(1) sx by simp
  have "ext bs bs'"
    using ext_trans [OF ext_append skel_ext [OF eq]] .
  moreover have "tree_ok bs'" if "tree_ok bs"
    using tree_ok_skel [OF eq tree_ok_append [OF that x(2)]] .
  ultimately have "grows bs bs'"
    by (simp add: grows_def)
  then show ?thesis
    using l x assms unfolding handler_post_def x_def by simp
qed

lemma retype_post:
  assumes "handler_post bs (Some box) bs2"
    and "bs3 = (if b_type (bs2 ! box) = BOX_INLINE then bs2[box := (bs2 ! box)\<lparr>b_type := t\<rparr>]
                else bs2)"
    and "t \<noteq> BOX_INLINE_CONTAINER"
  shows "grows bs bs3 \<and> box = length bs \<and> box < length bs3 \<and>
         b_type (bs3 ! box) \<noteq> BOX_INLINE_CONTAINER \<and>
         b_type (bs3 ! box) = (if b_type (bs2 ! box) = BOX_INLINE then t else b_type (bs2 ! box))"
proof (cases "b_type (bs2 ! box) = BOX_INLINE")
  case False
  then show ?thesis
    using assms by (auto simp: handler_post_def)
next
  case True
  have b: "box = length bs" "box < length bs2"
    and sk: "map skel bs2 =
        map skel bs @ [(BOX_INLINE, [], b_columns (bs2 ! box), b_rows (bs2 ! box))]"
    using assms(1) True by (simp_all add: handler_post_def)
  have l: "length bs2 = Suc (length bs)"
    using sk by (auto dest: arg_cong [where f = length])
  have "skel (bs2 ! box) = map skel bs2 ! box"
    using b by simp
  also have "\<dots> = (BOX_INLINE, [], b_columns (bs2 ! box), b_rows (bs2 ! box))"
    unfolding sk b(1) by (simp add: nth_append)
  finally have "skel (bs2 ! box) = (BOX_INLINE, [], b_columns (bs2 ! box), b_rows (bs2 ! box))" .
  then have "b_children (bs2 ! box) = []"
    by (simp add: skel_def)
  then have "map skel bs3 = (map skel bs2)[box := (t, [], b_columns (bs2 ! box), b_rows (bs2 ! box))]"
    using assms(2) True by (simp add: map_update skel_def)
  then have "map skel bs3 = map skel bs @ [(t, [], b_columns (bs2 ! box), b_rows (bs2 ! box))]"
    unfolding sk b(1) by (simp add: upd_append_len)
  from single_new_post [OF this assms(3)] show ?thesis
    using True assms(2,3) b by (simp add: handler_post_def)
qed

lemma element_block_post:
  assumes conv: "\<And>ch ps p ic st c ic' c'. ch \<in> set (node_children n) \<Longrightarrow>
             conv ch ps p ic st c = Inr (ic', c') \<Longrightarrow> conv_post (boxes c) p ic (boxes c') ic'"
    and run: "element_block e conv n style p ic0 status flag box c = Inr (ic', c')"
    and base: "ext bs0 (boxes c)" "length bs0 \<le> box"
  shows "ext bs0 (boxes c') \<and>
         (tree_ok (boxes c) \<and> p < length (boxes c) \<and> box < length (boxes c) \<and>
          edge_ok (b_type (boxes c ! p)) (b_type (boxes c ! box)) \<and>
          b_type (boxes c ! box) \<noteq> BOX_INLINE_CONTAINER \<and> ic_ok (boxes c) ic0
          \<longrightarrow> tree_ok (boxes c') \<and> ic_ok (boxes c') ic')"
proof -
  define bs1 where "bs1 = add_child p box (boxes c)"
  define c1 where "c1 = c\<lparr>boxes := bs1\<rparr>"
  define f1 where "f1 = (\<lambda>c2. case xmlGetProp n ''colspan'' of
      None \<Rightarrow> c2 | Some s \<Rightarrow> upd_box box (\<lambda>b. b\<lparr>b_columns := span_value s\<rparr>) c2)"
  define f2 where "f2 = (\<lambda>c3. case xmlGetProp n ''rowspan'' of
      None \<Rightarrow> c3 | Some s \<Rightarrow> upd_box box (\<lambda>b. b\<lparr>b_rows := span_value s\<rparr>) c3)"
  from run obtain icc c2 where
    ch: "(if flag then convert_children conv (node_children n) style box None status
          else ret None) c1 = Inr (icc, c2)"
    and c': "c' = f2 (f1 c2)"
    and ic': "ic' = (if float' style = CSS_FLOAT_NONE then None else ic0)"
    by (auto simp: element_block_def bnd_Inr_iff box_add_child_Inr ret_Inr set_box_Inr
        bs1_def c1_def f1_def f2_def split: option.split_asm)
  have b1: "boxes c1 = bs1"
    by (simp add: c1_def)
  have cp: "conv_post bs1 box None (boxes c2) icc"
  proof (cases flag)
    case True
    then show ?thesis
      using convert_children_post [of "node_children n" conv style box None status c1 icc c2]
        conv ch b1 by simp
  next
    case False
    then show ?thesis
      using ch b1 by (auto simp: ret_Inr conv_post_refl)
  qed
  define y1 where "y1 = (case xmlGetProp n ''colspan'' of
      None \<Rightarrow> boxes c2 ! box | Some s \<Rightarrow> (boxes c2 ! box)\<lparr>b_columns := span_value s\<rparr>)"
  have y1: "boxes (f1 c2) = (boxes c2)[box := y1]"
    "b_type y1 = b_type (boxes c2 ! box)" "b_children y1 = b_children (boxes c2 ! box)"
    by (simp_all add: f1_def y1_def upd_box_def split: option.split)
  define y2 where "y2 = (case xmlGetProp n ''rowspan'' of
      None \<Rightarrow> boxes (f1 c2) ! box | Some s \<Rightarrow> (boxes (f1 c2) ! box)\<lparr>b_rows := span_value s\<rparr>)"
  have y2: "boxes c' = (boxes (f1 c2))[box := y2]"
    "b_type y2 = b_type (boxes (f1 c2) ! box)" "b_children y2 = b_children (boxes (f1 c2) ! box)"
    unfolding c' by (simp_all add: f2_def y2_def upd_box_def split: option.split)
  have e1: "ext bs0 bs1"
    unfolding bs1_def using base(1) by (rule ext_add_child)
  have e2: "ext bs0 (boxes c2)"
    using ext_trans [OF e1] cp by (simp add: conv_post_def)
  have e3: "ext bs0 (boxes (f1 c2))"
    unfolding y1(1) using e2 base(2) y1(3) by (rule ext_update_new)
  have e4: "ext bs0 (boxes c')"
    unfolding y2(1) using e3 base(2) y2(3) by (rule ext_update_new)
  have "tree_ok (boxes c') \<and> ic_ok (boxes c') ic'"
    if h: "tree_ok (boxes c)" "p < length (boxes c)" "box < length (boxes c)"
      "edge_ok (b_type (boxes c ! p)) (b_type (boxes c ! box))"
      "b_type (boxes c ! box) \<noteq> BOX_INLINE_CONTAINER" "ic_ok (boxes c) ic0"
  proof -
    have t1: "tree_ok bs1"
      unfolding bs1_def using h(1-4) by (rule tree_ok_add_child)
    have ea: "ext (boxes c) bs1"
      unfolding bs1_def using ext_refl by (rule ext_add_child)
    have po: "parent_ok bs1 box"
      using h(3,5) nth_add_child [OF h(3), of p box]
      by (simp add: parent_ok_def bs1_def length_add_child)
    have t2: "tree_ok (boxes c2)" and eb: "ext bs1 (boxes c2)"
      using cp t1 po by (simp_all add: conv_post_def ic_ok_def)
    have i2: "ic_ok (boxes c2) ic0"
      using ic_ok_ext [OF eb ic_ok_ext [OF ea h(6)]] .
    have t3: "tree_ok (boxes (f1 c2))"
      unfolding y1(1) using t2 y1(2,3) by (rule tree_ok_update)
    have i3: "ic_ok (boxes (f1 c2)) ic0"
      unfolding y1(1) using i2 y1(2,3) by (rule ic_ok_update)
    have t4: "tree_ok (boxes c')"
      unfolding y2(1) using t3 y2(2,3) by (rule tree_ok_update)
    have i4: "ic_ok (boxes c') ic0"
      unfolding y2(1) using i3 y2(2,3) by (rule ic_ok_update)
    show ?thesis
      using t4 i4 ic' by (simp add: ic_ok_def)
  qed
  then show ?thesis
    using e4 by blast
qed

lemma edge_ok_inline: "tc = BOX_INLINE \<or> tc = BOX_BR \<or> tc = BOX_INLINE_BLOCK \<or>
    tc = BOX_FLOAT_LEFT \<or> tc = BOX_FLOAT_RIGHT \<Longrightarrow> edge_ok BOX_INLINE_CONTAINER tc"
  by (auto simp: edge_ok_def)

lemma edge_ok_block:
  "tp \<noteq> BOX_INLINE_CONTAINER \<Longrightarrow> tc \<noteq> BOX_INLINE \<Longrightarrow> tc \<noteq> BOX_BR \<Longrightarrow> edge_ok tp tc"
  by (simp add: edge_ok_def)

lemma ic_ok_add_child:
  assumes "cont_ok bs i"
  shows "ic_ok (add_child i ch bs) (Some i)"
proof -
  have i: "i < length bs" using assms by (simp add: cont_ok_def)
  show ?thesis
    using assms nth_add_child [OF i, of i ch]
    by (simp add: ic_ok_def cont_ok_def length_add_child)
qed

lemma element_inline_post:
  assumes conv: "\<And>ch ps p ic st c ic' c'. ch \<in> set (node_children n) \<Longrightarrow>
             conv ch ps p ic st c = Inr (ic', c') \<Longrightarrow> conv_post (boxes c) p ic (boxes c') ic'"
    and run: "element_inline e conv n style parent ic status title ident flag box type c =
              Inr ((at_end, parent', ic1), c')"
    and ty: "b_type (boxes c ! box) = type" and bl: "box < length (boxes c)"
    and nic: "type \<noteq> BOX_INLINE_CONTAINER"
  shows "ext (boxes c) (boxes c') \<and>
         (tree_ok (boxes c) \<and> parent_ok (boxes c) parent \<and> ic_ok (boxes c) ic \<longrightarrow>
            tree_ok (boxes c') \<and> ic_ok (boxes c') ic1 \<and>
            (\<not> at_end \<longrightarrow>
               parent' < length (boxes c') \<and>
               b_type (boxes c' ! parent') \<noteq> BOX_INLINE_CONTAINER \<and>
               type \<noteq> BOX_INLINE \<and> type \<noteq> BOX_BR))"
proof -
  from run obtain i c0 where
    mk: "make_container e parent ic c = Inr (i, c0)"
    and rest: "(if type = BOX_INLINE \<or> type = BOX_BR then
       bnd (box_add_child i box) (\<lambda>_.
       bnd (if flag
            then convert_children conv (node_children n) style parent (Some i) status
            else ret (Some i)) (\<lambda>ic.
       ret (True, parent, ic)))
     else if type = BOX_INLINE_BLOCK then
       bnd (box_add_child i box) (\<lambda>_.
       bnd (if flag
            then convert_children conv (node_children n) style box None status
            else ret None) (\<lambda>inline_container_c.
       ret (True, parent, Some i)))
     else
       bnd (box_create e None (st_href status) title ident) (\<lambda>fl.
       bnd (set_box fl (\<lambda>b. b\<lparr>b_type :=
              (if float' style = CSS_FLOAT_LEFT then BOX_FLOAT_LEFT
               else BOX_FLOAT_RIGHT)\<rparr>)) (\<lambda>_.
       bnd (box_add_child i fl) (\<lambda>_.
       bnd (if type = BOX_INLINE \<or> type = BOX_INLINE_BLOCK
            then set_box box (\<lambda>b. b\<lparr>b_type := BOX_BLOCK\<rparr>)
            else ret ()) (\<lambda>_.
       ret (False, fl, Some i)))))) c0 = Inr ((at_end, parent', ic1), c')"
    unfolding element_inline_def bnd_Inr_iff [of "make_container e parent ic"] by blast
  note m = make_container_post [OF mk]
  have e0: "ext (boxes c) (boxes c0)"
    using m by simp
  have bl0: "box < length (boxes c0)" and ty0: "b_type (boxes c0 ! box) = type"
    using ext_length [OF e0] ext_old [OF e0 bl] bl ty by simp_all
  consider (inline) "type = BOX_INLINE \<or> type = BOX_BR"
    | (iblock) "type \<noteq> BOX_INLINE" "type \<noteq> BOX_BR" "type = BOX_INLINE_BLOCK"
    | (other) "type \<noteq> BOX_INLINE" "type \<noteq> BOX_BR" "type \<noteq> BOX_INLINE_BLOCK"
    by blast
  then show ?thesis
  proof cases
    case inline
    define bs1 where "bs1 = add_child i box (boxes c0)"
    from rest inline have
      ch: "(if flag then convert_children conv (node_children n) style parent (Some i) status
            else ret (Some i)) (c0\<lparr>boxes := bs1\<rparr>) = Inr (ic1, c')"
      and ae: "at_end"
      by (auto simp: bnd_Inr_iff box_add_child_Inr ret_Inr bs1_def)
    have cp: "conv_post bs1 parent (Some i) (boxes c') ic1"
    proof (cases flag)
      case True
      then show ?thesis
        using convert_children_post [of "node_children n" conv style parent "Some i" status
            "c0\<lparr>boxes := bs1\<rparr>" ic1 c'] conv ch by simp
    next
      case False
      then show ?thesis
        using ch by (auto simp: ret_Inr conv_post_refl)
    qed
    have e1: "ext (boxes c0) bs1"
      unfolding bs1_def using ext_refl by (rule ext_add_child)
    have e: "ext (boxes c) (boxes c')"
      using ext_trans [OF ext_trans [OF e0 e1]] cp by (simp add: conv_post_def)
    have "tree_ok (boxes c') \<and> ic_ok (boxes c') ic1"
      if h: "tree_ok (boxes c)" "parent_ok (boxes c) parent" "ic_ok (boxes c) ic"
    proof -
      have t0: "tree_ok (boxes c0)" and co: "cont_ok (boxes c0) i"
        using m h by simp_all
      have "edge_ok (b_type (boxes c0 ! i)) (b_type (boxes c0 ! box))"
        using co ty0 inline by (auto simp: cont_ok_def edge_ok_inline)
      then have t1: "tree_ok bs1"
        unfolding bs1_def using t0 co bl0 by (intro tree_ok_add_child) (simp_all add: cont_ok_def)
      have "parent_ok bs1 parent"
        using parent_ok_ext [OF ext_trans [OF e0 e1] h(2)] .
      moreover have "ic_ok bs1 (Some i)"
        unfolding bs1_def using co by (rule ic_ok_add_child)
      ultimately show ?thesis
        using cp t1 by (simp add: conv_post_def)
    qed
    then show ?thesis
      using e ae by simp
  next
    case iblock
    define bs1 where "bs1 = add_child i box (boxes c0)"
    from rest iblock obtain icc where
      ch: "(if flag then convert_children conv (node_children n) style box None status
            else ret None) (c0\<lparr>boxes := bs1\<rparr>) = Inr (icc, c')"
      and ae: "at_end" and i1: "ic1 = Some i"
      by (auto simp: bnd_Inr_iff box_add_child_Inr ret_Inr bs1_def)
    have cp: "conv_post bs1 box None (boxes c') icc"
    proof (cases flag)
      case True
      then show ?thesis
        using convert_children_post [of "node_children n" conv style box None status
            "c0\<lparr>boxes := bs1\<rparr>" icc c'] conv ch by simp
    next
      case False
      then show ?thesis
        using ch by (auto simp: ret_Inr conv_post_refl)
    qed
    have e1: "ext (boxes c0) bs1"
      unfolding bs1_def using ext_refl by (rule ext_add_child)
    have e2: "ext bs1 (boxes c')"
      using cp by (simp add: conv_post_def)
    have e: "ext (boxes c) (boxes c')"
      using ext_trans [OF ext_trans [OF e0 e1] e2] .
    have "tree_ok (boxes c') \<and> ic_ok (boxes c') ic1"
      if h: "tree_ok (boxes c)" "parent_ok (boxes c) parent" "ic_ok (boxes c) ic"
    proof -
      have t0: "tree_ok (boxes c0)" and co: "cont_ok (boxes c0) i"
        using m h by simp_all
      have "edge_ok (b_type (boxes c0 ! i)) (b_type (boxes c0 ! box))"
        using co ty0 iblock by (auto simp: cont_ok_def edge_ok_inline)
      then have t1: "tree_ok bs1"
        unfolding bs1_def using t0 co bl0 by (intro tree_ok_add_child) (simp_all add: cont_ok_def)
      have "parent_ok bs1 box"
        using bl0 ty0 nic ext_old [OF e1 bl0] ext_length [OF e1] by (simp add: parent_ok_def)
      then have t2: "tree_ok (boxes c')"
        using cp t1 by (simp add: conv_post_def ic_ok_def)
      have "ic_ok bs1 (Some i)"
        unfolding bs1_def using co by (rule ic_ok_add_child)
      then have "ic_ok (boxes c') (Some i)"
        using e2 by (rule ic_ok_ext [rotated])
      then show ?thesis
        using t2 i1 by simp
    qed
    then show ?thesis
      using e ae by simp
  next
    case other
    define x where "x = (new_box None (st_href status) title ident)\<lparr>b_type :=
      (if float' style = CSS_FLOAT_LEFT then BOX_FLOAT_LEFT else BOX_FLOAT_RIGHT)\<rparr>"
    define k where "k = length (boxes c0)"
    from rest other have
      c': "boxes c' = add_child i k (boxes c0 @ [x])"
      and ae: "\<not> at_end" and p': "parent' = k" and i1: "ic1 = Some i"
      by (auto simp: bnd_Inr_iff box_add_child_Inr ret_Inr box_create_Inr_iff set_box_Inr
          upd_box_def x_def k_def)
    have x: "b_children x = []" "b_type x = BOX_FLOAT_LEFT \<or> b_type x = BOX_FLOAT_RIGHT"
      by (simp_all add: x_def new_box_def)
    have e1: "ext (boxes c0) (boxes c')"
      unfolding c' by (rule ext_add_child [OF ext_append])
    have e: "ext (boxes c) (boxes c')"
      using ext_trans [OF e0 e1] .
    have kl: "k < length (boxes c0 @ [x])"
      by (simp add: k_def)
    have "tree_ok (boxes c') \<and> ic_ok (boxes c') ic1 \<and> parent' < length (boxes c') \<and>
          b_type (boxes c' ! parent') \<noteq> BOX_INLINE_CONTAINER"
      if h: "tree_ok (boxes c)" "parent_ok (boxes c) parent" "ic_ok (boxes c) ic"
    proof -
      have t0: "tree_ok (boxes c0)" and co: "cont_ok (boxes c0) i"
        using m h by simp_all
      have t1: "tree_ok (boxes c0 @ [x])"
        using t0 x(1) by (rule tree_ok_append)
      have co1: "cont_ok (boxes c0 @ [x]) i"
        using co by (simp add: cont_ok_def nth_append)
      have "edge_ok (b_type ((boxes c0 @ [x]) ! i)) (b_type ((boxes c0 @ [x]) ! k))"
        using co1 x(2) by (auto simp: cont_ok_def k_def edge_ok_inline)
      then have t2: "tree_ok (boxes c')"
        unfolding c' using t1 co1 kl by (intro tree_ok_add_child) (simp_all add: cont_ok_def)
      have "ic_ok (boxes c') (Some i)"
        unfolding c' using co1 by (rule ic_ok_add_child)
      moreover have "b_type (boxes c' ! k) \<noteq> BOX_INLINE_CONTAINER"
        unfolding c' using nth_add_child [OF kl, of i k] x(2) by (auto simp: k_def)
      ultimately show ?thesis
        using t2 i1 p' kl unfolding c' by (simp add: length_add_child)
    qed
    then show ?thesis
      using e ae other by simp
  qed
qed

lemma skel_quiet_update: "skel y = skel (xs ! b) \<Longrightarrow> map skel (xs[b := y]) = map skel xs"
  by (simp add: map_update skel_update_id)

lemma skel_conv_post: "map skel bs = map skel bs' \<Longrightarrow> conv_post bs p ic bs' ic"
  using skel_ext [of bs bs'] tree_ok_skel [of bs bs'] ic_ok_ext [of bs bs' ic]
  by (simp add: conv_post_def)

lemma conv_post_None: "conv_post bs p ic bs' ic1 \<Longrightarrow> conv_post bs p ic bs' None"
  by (simp add: conv_post_def ic_ok_def)

lemma cnv_space2nbsp_Inr:
  "cnv_space2nbsp e s c = Inr (x, c') \<longleftrightarrow>
   malloc_ok e (allocs c) \<and> x = space2nbsp s \<and> c' = c\<lparr>allocs := Suc (allocs c)\<rparr>"
  by (auto simp: cnv_space2nbsp_def bnd_Inr_iff alloc_Inr ret_Inr)

lemma text_box_post:
  assumes mk: "make_container e parent ic c = Inr (i, c0)"
    and x: "b_type x = BOX_INLINE" "b_children x = []"
    and sk: "map skel bs' = map skel (add_child i (length (boxes c0)) (boxes c0 @ [x]))"
  shows "conv_post (boxes c) parent ic bs' (Some i)"
proof -
  define k where "k = length (boxes c0)"
  define bsx where "bsx = add_child i k (boxes c0 @ [x])"
  note m = make_container_post [OF mk]
  have e0: "ext (boxes c) (boxes c0)"
    using m by simp
  have e1: "ext (boxes c0) bsx"
    unfolding bsx_def by (rule ext_add_child [OF ext_append])
  have e2: "ext bsx bs'"
    using sk skel_ext [of bsx bs'] by (simp add: bsx_def k_def)
  have e: "ext (boxes c) bs'"
    using ext_trans [OF ext_trans [OF e0 e1] e2] .
  have kl: "k < length (boxes c0 @ [x])"
    by (simp add: k_def)
  have "tree_ok bs' \<and> ic_ok bs' (Some i)"
    if h: "tree_ok (boxes c)" "parent_ok (boxes c) parent" "ic_ok (boxes c) ic"
  proof -
    have t0: "tree_ok (boxes c0)" and co: "cont_ok (boxes c0) i"
      using m h by simp_all
    have t1: "tree_ok (boxes c0 @ [x])"
      using t0 x(2) by (rule tree_ok_append)
    have co1: "cont_ok (boxes c0 @ [x]) i"
      using co by (simp add: cont_ok_def nth_append)
    have "edge_ok (b_type ((boxes c0 @ [x]) ! i)) (b_type ((boxes c0 @ [x]) ! k))"
      using co1 x(1) by (auto simp: cont_ok_def k_def edge_ok_inline)
    then have "tree_ok bsx"
      unfolding bsx_def using t1 co1 kl by (intro tree_ok_add_child) (simp_all add: cont_ok_def)
    then have t2: "tree_ok bs'"
      using sk tree_ok_skel [of bsx bs'] by (simp add: bsx_def k_def)
    have "ic_ok bsx (Some i)"
      unfolding bsx_def using co1 by (rule ic_ok_add_child)
    then have "ic_ok bs' (Some i)"
      using e2 by (rule ic_ok_ext [rotated])
    then show ?thesis
      using t2 by simp
  qed
  then show ?thesis
    using e by (simp add: conv_post_def)
qed

lemma pre_lines_post:
  "pre_lines e ps st parent ic cur c = Inr (ic', c') \<Longrightarrow>
   conv_post (boxes c) parent ic (boxes c') ic'"
proof (induction e ps st parent ic cur arbitrary: c rule: pre_lines.induct)
  case (1 e ps st parent ic cur)
  define len where "len = strcspn_crlf cur"
  define x where "x = (new_box (Some ps) (st_href st) None None)\<lparr>b_type := BOX_INLINE,
    b_style_clone := True, b_text := Some (take len cur), b_length := length (take len cur)\<rparr>"
  from "1.prems" [unfolded pre_lines.simps [of e ps st parent ic cur] Let_def]
  obtain i c0 where
    mk: "make_container e parent ic c = Inr (i, c0)"
    and rest0: "(case drop len cur of
                  [] \<Rightarrow> ret (Some i)
                | x # rest \<Rightarrow>
                    if skip_eol (x # rest) = [] then ret None
                    else pre_lines e ps st parent None (skip_eol (x # rest)))
                 (c0\<lparr>allocs := Suc (Suc (allocs c0)),
                     boxes := add_child i (length (boxes c0)) (boxes c0 @ [x])\<rparr>) =
               Inr (ic', c')"
    by (auto simp: len_def x_def bnd_Inr_iff box_create_Inr_iff set_box_Inr upd_box_def
        strdup_Inr box_add_child_Inr simp del: pre_lines.simps)
  define c1 where "c1 = c0\<lparr>allocs := Suc (Suc (allocs c0)),
    boxes := add_child i (length (boxes c0)) (boxes c0 @ [x])\<rparr>"
  have b1: "map skel (boxes c1) = map skel (add_child i (length (boxes c0)) (boxes c0 @ [x]))"
    by (simp add: c1_def)
  have x: "b_type x = BOX_INLINE" "b_children x = []"
    by (simp_all add: x_def new_box_def)
  note rest = rest0 [folded c1_def]
  note round = text_box_post [OF mk x b1]
  show ?case
  proof (cases "drop len cur")
    case Nil
    then have "ic' = Some i" "c' = c1"
      using rest by (simp_all add: ret_Inr)
    then show ?thesis
      using round by simp
  next
    case (Cons y rest')
    show ?thesis
    proof (cases "skip_eol (y # rest') = []")
      case True
      then have "ic' = None" "c' = c1"
        using rest Cons by (simp_all add: ret_Inr)
      then show ?thesis
        using conv_post_None [OF round] by simp
    next
      case False
      then have rec: "pre_lines e ps st parent None (skip_eol (y # rest')) c1 = Inr (ic', c')"
        using rest Cons by simp
      have d: "drop (strcspn_crlf cur) cur = y # rest'"
        using Cons by (simp add: len_def)
      note ih = "1.IH" [OF refl d False rec]
      show ?thesis
        using conv_post_trans [OF conv_post_None [OF round] ih] .
    qed
  qed
qed

subsection \<open>The structural invariant: reasoning by steps\<close>

lemma wpD: "wp m Q c \<Longrightarrow> m c = Inr (x, c') \<Longrightarrow> Q x c'"
  by (simp add: wp_def)

lemma wpI: "(\<And>x c'. m c = Inr (x, c') \<Longrightarrow> Q x c') \<Longrightarrow> wp m Q c"
  by (auto simp: wp_def split: sum.split)

lemma wp_ret: "Q x c \<Longrightarrow> wp (ret x) Q c"
  by (simp add: wp_def ret_def)

lemma wp_fail: "wp (fail err) Q c"
  by (simp add: wp_def fail_def)

lemma wp_bnd: "wp m (\<lambda>x. wp (f x) Q) c \<Longrightarrow> wp (bnd m f) Q c"
  by (cases "m c") (auto simp: wp_def bnd_def)

lemma wp_bnd_spec:
  "(\<And>x c1. m c = Inr (x, c1) \<Longrightarrow> wp (f x) Q c1) \<Longrightarrow> wp (bnd m f) Q c"
  by (rule wp_bnd) (rule wpI)

lemma wp_bnd_quiet:
  "quiet m \<Longrightarrow>
   (\<And>x c1. map skel (boxes c1) = map skel (boxes c) \<Longrightarrow> length (boxes c1) = length (boxes c) \<Longrightarrow>
      wp (f x) Q c1) \<Longrightarrow>
   wp (bnd m f) Q c"
proof (rule wp_bnd_spec)
  fix x c1
  assume q: "quiet m"
    and st: "\<And>x c1. map skel (boxes c1) = map skel (boxes c) \<Longrightarrow>
               length (boxes c1) = length (boxes c) \<Longrightarrow> wp (f x) Q c1"
    and r: "m c = Inr (x, c1)"
  have sk: "map skel (boxes c1) = map skel (boxes c)"
    using q r by (simp add: quiet_def)
  show "wp (f x) Q c1"
    using st [OF sk skel_eq_length [OF sk]] .
qed

lemma wp_bnd_create:
  "(\<And>c1. map skel (boxes c1) = map skel (boxes c) @ [(BOX_INLINE, [], 1, 1)] \<Longrightarrow>
      length (boxes c1) = Suc (length (boxes c)) \<Longrightarrow>
      wp (f (length (boxes c))) Q c1) \<Longrightarrow>
   wp (bnd (box_create e style href title ident) f) Q c"
  by (rule wp_bnd_spec) (auto simp: box_create_Inr_iff skel_new_box)

lemma wp_bnd_add_child:
  "(\<And>c1. map skel (boxes c1) = sk_add_child p ch (map skel (boxes c)) \<Longrightarrow>
      length (boxes c1) = length (boxes c) \<Longrightarrow> wp (f ()) Q c1) \<Longrightarrow>
   wp (bnd (box_add_child p ch) f) Q c"
  by (rule wp_bnd_spec) (auto simp: box_add_child_Inr skel_add_child length_add_child)

lemma wp_if: "(P \<Longrightarrow> wp a Q c) \<Longrightarrow> (\<not> P \<Longrightarrow> wp b Q c) \<Longrightarrow> wp (if P then a else b) Q c"
  by simp

lemma wp_case_option:
  "(x = None \<Longrightarrow> wp a Q c) \<Longrightarrow> (\<And>y. x = Some y \<Longrightarrow> wp (f y) Q c) \<Longrightarrow>
   wp (case x of None \<Rightarrow> a | Some y \<Rightarrow> f y) Q c"
  by (cases x) simp_all

lemma quietD: "quiet m \<Longrightarrow> m c = Inr (x, c') \<Longrightarrow> map skel (boxes c') = map skel (boxes c)"
  by (simp add: quiet_def)

lemma quiet_ret: "quiet (ret x)"
  by (simp add: quiet_def ret_Inr)

lemma quiet_fail: "quiet (fail err)"
  by (simp add: quiet_def fail_Inr)

lemma quiet_gets: "quiet (gets f)"
  by (simp add: quiet_def gets_Inr)

lemma quiet_alloc: "quiet (alloc e)"
  by (auto simp: quiet_def alloc_Inr)

lemma quiet_try_alloc: "quiet (try_alloc e)"
  by (auto simp: quiet_def try_alloc_Inr)

lemma quiet_bnd: "quiet m \<Longrightarrow> (\<And>x. quiet (f x)) \<Longrightarrow> quiet (bnd m f)"
  unfolding quiet_def bnd_Inr_iff by (metis (no_types))

lemma quiet_if: "(P \<Longrightarrow> quiet a) \<Longrightarrow> (\<not> P \<Longrightarrow> quiet b) \<Longrightarrow> quiet (if P then a else b)"
  by simp

lemma quiet_case_option:
  "quiet a \<Longrightarrow> (\<And>y. quiet (f y)) \<Longrightarrow> quiet (case x of None \<Rightarrow> a | Some y \<Rightarrow> f y)"
  by (cases x) simp_all

lemma quiet_case_url:
  "(\<And>u. quiet (f u)) \<Longrightarrow> quiet a \<Longrightarrow> quiet b \<Longrightarrow>
   quiet (case x of URL_FUNC_OK u \<Rightarrow> f u | URL_FUNC_FAILED \<Rightarrow> a | URL_FUNC_NOMEM \<Rightarrow> b)"
  by (cases x) simp_all

lemma quiet_case_prod: "(\<And>a b. quiet (f a b)) \<Longrightarrow> quiet (case p of (a, b) \<Rightarrow> f a b)"
  by (cases p) simp

lemma quiet_set_box: "(\<And>y. skel (f y) = skel y) \<Longrightarrow> quiet (set_box b f)"
  by (simp add: quiet_def set_box_Inr upd_box_def skel_quiet_update)

lemma quiet_modify: "(\<And>c. boxes (f c) = boxes c) \<Longrightarrow> quiet (modify f)"
  by (simp add: quiet_def modify_Inr)

lemma quiet_set_gadget: "quiet (set_gadget g f)"
  by (simp add: quiet_def set_gadget_Inr upd_gadget_def)

lemma quiet_strdup: "quiet (strdup e s)"
  unfolding strdup_def by (intro quiet_bnd quiet_alloc quiet_ret)

lemma quiet_strdup_opt: "quiet (strdup_opt e s)"
  unfolding strdup_opt_def by (intro quiet_case_option quiet_bnd quiet_strdup quiet_ret)

lemma quiet_squash_whitespace: "quiet (squash_whitespace e s)"
  unfolding squash_whitespace_def by (intro quiet_bnd quiet_alloc quiet_ret)

lemma quiet_cnv_space2nbsp: "quiet (cnv_space2nbsp e s)"
  unfolding cnv_space2nbsp_def by (intro quiet_bnd quiet_alloc quiet_ret)

lemma quiet_result: "quiet (result b conv status)"
  unfolding result_def by (rule quiet_ret)

lemmas quiet_intros = quiet_ret quiet_fail quiet_gets quiet_alloc quiet_try_alloc quiet_bnd
  quiet_if quiet_case_option quiet_case_url quiet_case_prod quiet_set_box quiet_modify
  quiet_set_gadget quiet_strdup quiet_strdup_opt quiet_squash_whitespace quiet_cnv_space2nbsp
  quiet_result

lemma text_box_post_sk:
  assumes mk: "make_container e parent ic c = Inr (i, c0)"
    and sk: "map skel bs' =
        sk_add_child i (length (boxes c0)) (map skel (boxes c0) @ [(BOX_INLINE, [], 1, 1)])"
  shows "conv_post (boxes c) parent ic bs' (Some i)"
proof -
  have "map skel bs' =
      map skel (add_child i (length (boxes c0)) (boxes c0 @ [new_box None None None None]))"
    using sk by (simp add: skel_add_child skel_new_box)
  from text_box_post [OF mk _ _ this] show ?thesis
    by (simp add: new_box_def)
qed

lemma text_normal_wp:
  assumes mk: "make_container e parent ic c1 = Inr (i, c0)"
  shows "wp (bnd (box_create e (Some parent_style) (st_href status) None None) (\<lambda>box.
          bnd (set_box box (\<lambda>b. b\<lparr>b_text := Some text, b_style_clone := True,
                 b_length := length text\<rparr>)) (\<lambda>_.
          bnd (if 1 < length text \<and> last text = CHR '' ''
               then set_box box (\<lambda>b. b\<lparr>b_space := True, b_length := b_length b - 1\<rparr>)
               else ret ()) (\<lambda>_.
          bnd (if text_transform parent_style \<noteq> CSS_TEXT_TRANSFORM_NONE
               then set_box box (\<lambda>b. b\<lparr>b_text := Some (box_text_transform text (b_length b)
                                                          (text_transform parent_style))\<rparr>)
               else ret ()) (\<lambda>_.
          bnd (gets (\<lambda>c. boxes c ! box)) (\<lambda>b1.
          bnd (case b_text b1 of
                 None \<Rightarrow> fail Abort
               | Some text1 \<Rightarrow>
                   if white_space parent_style = CSS_WHITE_SPACE_NOWRAP \<and>
                      CHR '' '' \<in> set (take (b_length b1) text1)
                   then bnd (cnv_space2nbsp e text1) (\<lambda>t2.
                        set_box box (\<lambda>b. b\<lparr>b_text := Some t2, b_length := length t2\<rparr>))
                   else ret ()) (\<lambda>_.
          bnd (gets (\<lambda>c. b_children (boxes c ! i))) (\<lambda>ch.
          bnd (box_add_child i box) (\<lambda>_.
          bnd (gets (\<lambda>c. boxes c ! box)) (\<lambda>b2.
          bnd (case b_text b2 of
                 None \<Rightarrow> fail Abort
               | Some bt \<Rightarrow>
                   if take 1 bt = '' '' then
                     bnd (set_box box (\<lambda>b. b\<lparr>b_length := b_length b2 - 1,
                            b_text := Some (take (b_length b2 - 1) (drop 1 bt) @
                                            drop (b_length b2 - 1) bt)\<rparr>)) (\<lambda>_.
                     if ch = [] then ret ()
                     else set_box (last ch) (\<lambda>b. b\<lparr>b_space := True\<rparr>))
                   else ret ()) (\<lambda>_.
          ret (Some i))))))))))))
        (\<lambda>ic' c'. conv_post (boxes c1) parent ic (boxes c') ic') c0"
  apply ((rule wp_bnd_create wp_bnd_add_child
         | (rule wp_bnd_quiet, (intro quiet_intros; simp add: skel_def)[1]))+)
  apply (rule wp_ret)
  apply (rule text_box_post_sk [OF mk])
  apply simp
  done

lemma wp_mono: "wp m Q c \<Longrightarrow> (\<And>x c'. Q x c' \<Longrightarrow> Q' x c') \<Longrightarrow> wp m Q' c"
  by (cases "m c") (auto simp: wp_def)

lemma box_construct_text_wp:
  "wp (box_construct_text e content parent_style parent ic status)
     (\<lambda>ic' c'. conv_post (boxes c) parent ic (boxes c') ic') c"
  unfolding box_construct_text_def
  apply (rule wp_if)
   apply (rule wp_bnd_quiet, rule quiet_squash_whitespace)
   apply (rule wp_if)
    apply (rule wp_case_option)
     apply (rule wp_ret, simp add: skel_conv_post)
    apply (rule wp_bnd_quiet, rule quiet_gets)
    apply (rule wp_if, rule wp_fail)
    apply (rule wp_bnd_quiet, (intro quiet_intros; simp add: skel_def)[1])
    apply (rule wp_ret, simp add: skel_conv_post)
   apply (rule wp_bnd_spec)
   apply (rule wp_mono, erule text_normal_wp)
   apply (erule conv_post_trans [rotated], rule skel_conv_post, simp)
  apply (rule wp_bnd_quiet, rule quiet_cnv_space2nbsp)
  apply (rule wpI)
  apply (drule pre_lines_post)
  apply (erule conv_post_trans [rotated], rule skel_conv_post, simp)
  done

lemma box_construct_text_post:
  "box_construct_text e content parent_style parent ic status c = Inr (ic', c') \<Longrightarrow>
   conv_post (boxes c) parent ic (boxes c') ic'"
  using wpD [OF box_construct_text_wp] .

subsection \<open>The structural invariant: special case elements\<close>

lemma seg_grows:
  assumes sk: "map skel bs' = map skel bs @ seg"
    and ok: "list_all (\<lambda>s. list_all (\<lambda>ch. length bs \<le> ch \<and> ch < length bs + length seg \<and>
                 edge_ok (fst s) (fst (seg ! (ch - length bs)))) (fst (snd s))) seg"
  shows "grows bs bs'"
proof -
  have l: "length bs' = length bs + length seg"
    using sk by (auto dest: arg_cong [where f = length])
  have nth: "skel (bs' ! i) = (map skel bs @ seg) ! i" if "i < length bs'" for i
    using that sk by (metis nth_map)
  have old: "skel (bs' ! i) = skel (bs ! i)" if "i < length bs" for i
    using nth [of i] that l by (simp add: nth_append)
  have new: "skel (bs' ! i) = seg ! (i - length bs)" if "length bs \<le> i" "i < length bs'" for i
    using nth [of i] that by (simp add: nth_append)
  have e: "ext bs bs'"
  proof (rule extI)
    show "length bs \<le> length bs'" using l by simp
  next
    fix i assume "i < length bs"
    from old [OF this] show "b_type (bs' ! i) = b_type (bs ! i) \<and>
        b_columns (bs' ! i) = b_columns (bs ! i) \<and> b_rows (bs' ! i) = b_rows (bs ! i) \<and>
        (b_children (bs ! i) \<noteq> [] \<longrightarrow> b_children (bs' ! i) \<noteq> [])"
      by (simp add: skel_def)
  qed
  have "tree_ok bs'" if t: "tree_ok bs"
    unfolding tree_ok_def
  proof (intro allI impI ballI)
    fix p ch
    assume p: "p < length bs'" and ch: "ch \<in> set (b_children (bs' ! p))"
    show "ch < length bs' \<and> edge_ok (b_type (bs' ! p)) (b_type (bs' ! ch))"
    proof (cases "p < length bs")
      case True
      have "ch \<in> set (b_children (bs ! p))"
        using ch old [OF True] by (simp add: skel_def)
      then have c: "ch < length bs" "edge_ok (b_type (bs ! p)) (b_type (bs ! ch))"
        using t True unfolding tree_ok_def by blast+
      then show ?thesis
        using old [OF True] old [OF c(1)] l by (simp add: skel_def)
    next
      case False
      define j where "j = p - length bs"
      have j: "j < length seg" using False p l by (simp add: j_def)
      have s: "skel (bs' ! p) = seg ! j"
        using new [of p] False p by (simp add: j_def)
      have ty: "b_type x = fst (skel x)" and cd: "b_children x = fst (snd (skel x))" for x
        by (simp_all add: skel_def)
      have "ch \<in> set (fst (snd (seg ! j)))"
        using ch unfolding cd s .
      then have c: "length bs \<le> ch" "ch < length bs + length seg"
        "edge_ok (fst (seg ! j)) (fst (seg ! (ch - length bs)))"
        using ok j by (auto simp: list_all_length in_set_conv_nth)
      have "skel (bs' ! ch) = seg ! (ch - length bs)"
        using new [of ch] c l by simp
      then have "b_type (bs' ! ch) = fst (seg ! (ch - length bs))"
        unfolding ty by simp
      moreover have "b_type (bs' ! p) = fst (seg ! j)"
        unfolding ty s by simp
      ultimately show ?thesis
        using c l by simp
    qed
  qed
  then show ?thesis
    using e by (simp add: grows_def)
qed

lemma seg_post:
  assumes sk: "map skel bs' = map skel bs @ s # seg"
    and ok: "list_all (\<lambda>s'. list_all (\<lambda>ch. length bs \<le> ch \<and> ch < length bs + length (s # seg) \<and>
                 edge_ok (fst s') (fst ((s # seg) ! (ch - length bs)))) (fst (snd s'))) (s # seg)"
    and hd: "fst s \<noteq> BOX_INLINE_CONTAINER" "fst s \<noteq> BOX_INLINE"
  shows "handler_post bs (Some (length bs)) bs'"
proof -
  have l: "length bs' = length bs + length (s # seg)"
    using sk by (auto dest: arg_cong [where f = length])
  have "skel (bs' ! length bs) = (map skel bs @ s # seg) ! length bs"
    using sk l by (metis nth_map less_add_same_cancel1 length_greater_0_conv list.distinct(1))
  then have "skel (bs' ! length bs) = s"
    by (simp add: nth_append)
  then have "b_type (bs' ! length bs) = fst s"
    by (auto simp: skel_def)
  then show ?thesis
    using seg_grows [OF sk ok] l hd by (simp add: handler_post_def)
qed

lemma none_post: "map skel bs' = map skel bs \<Longrightarrow> handler_post bs None bs'"
  using skel_grows [of bs bs'] by (simp add: handler_post_def)

lemma wp_result:
  "Q (\<lparr>res_box = b, res_convert_children = cv\<rparr>, st) c \<Longrightarrow> wp (result b cv st) Q c"
  unfolding result_def by (rule wp_ret)

lemma quiet_form_new_control: "quiet (form_new_control e t)"
  by (auto simp: quiet_def form_new_control_Inr)

lemma quiet_form_free_control: "quiet (form_free_control g)"
  unfolding form_free_control_def by (rule quiet_modify) simp

lemma quiet_get_gadget: "quiet (get_gadget g)"
  by (auto simp: quiet_def get_gadget_def split: if_split_asm option.split_asm)

lemma quiet_form_add_control: "quiet (form_add_control fm g)"
  by (auto simp: quiet_def form_add_control_Inr upd_gadget_def)

lemma quiet_form_add_option: "quiet (form_add_option e g v t s)"
  unfolding form_add_option_def by (intro quiet_intros)

lemma quiet_form_new: "quiet (form_new e a m)"
  by (auto simp: quiet_def form_new_def bnd_Inr_iff alloc_Inr)

lemma quiet_box_free: "quiet (box_free b)"
  unfolding box_free_def by (intro quiet_intros quiet_form_free_control)

lemma quiet_html_fetch_object: "quiet (html_fetch_object e url b it w h bg)"
  by (auto simp: quiet_def html_fetch_object_Inr)

lemma quiet_box_select_add_option: "quiet (box_select_add_option e g n)"
  unfolding box_select_add_option_def by (intro quiet_intros quiet_form_add_option)

lemma quiet_select_optgroup: "quiet (select_optgroup e g cs)"
  by (induction cs) (auto intro!: quiet_intros quiet_box_select_add_option)

lemma quiet_select_children: "quiet (select_children e g cs)"
  by (induction cs)
    (auto intro!: quiet_intros quiet_box_select_add_option quiet_select_optgroup)

lemma quiet_new_param: "quiet (new_param e n)"
  unfolding new_param_def by (intro quiet_intros)

lemma quiet_object_param_children: "quiet (object_param_children e cs ps)"
  by (induction cs arbitrary: ps) (auto intro!: quiet_intros quiet_new_param)

lemma quiet_embed_attributes: "quiet (embed_attributes e as ps)"
  by (induction as arbitrary: ps) (auto intro!: quiet_intros)

lemma quiet_case_sum:
  "(\<And>a. quiet (f a)) \<Longrightarrow> (\<And>b. quiet (g b)) \<Longrightarrow> quiet (case x of Inl a \<Rightarrow> f a | Inr b \<Rightarrow> g b)"
  by (cases x) simp_all

lemma quiet_plugin_decode: "quiet (plugin_decode e box)"
  unfolding plugin_decode_def
  by (intro quiet_intros quiet_case_sum quiet_html_fetch_object; simp add: skel_def)

lemmas quiet_more = quiet_form_new_control quiet_form_free_control quiet_get_gadget
  quiet_form_add_control quiet_form_add_option quiet_form_new quiet_box_free
  quiet_html_fetch_object quiet_select_children quiet_object_param_children
  quiet_embed_attributes quiet_plugin_decode

lemma wp_bnd_set_box:
  "(\<And>y. skel (f y) = (t, snd (skel y))) \<Longrightarrow> b < length (map skel (boxes c)) \<Longrightarrow>
   (\<And>c1. map skel (boxes c1) = (map skel (boxes c))[b := (t, snd (map skel (boxes c) ! b))] \<Longrightarrow>
      length (boxes c1) = length (boxes c) \<Longrightarrow> wp (g ()) Q c1) \<Longrightarrow>
   wp (bnd (set_box b f) g) Q c"
  by (rule wp_bnd_spec) (auto simp: set_box_Inr upd_box_def map_update)

lemma wp_case_url:
  "(\<And>u. x = URL_FUNC_OK u \<Longrightarrow> wp (f u) Q c) \<Longrightarrow> (x = URL_FUNC_FAILED \<Longrightarrow> wp a Q c) \<Longrightarrow>
   (x = URL_FUNC_NOMEM \<Longrightarrow> wp b Q c) \<Longrightarrow>
   wp (case x of URL_FUNC_OK u \<Rightarrow> f u | URL_FUNC_FAILED \<Rightarrow> a | URL_FUNC_NOMEM \<Rightarrow> b) Q c"
  by (cases x) simp_all

lemma wp_case_prod: "(\<And>a b. p = (a, b) \<Longrightarrow> wp (f a b) Q c) \<Longrightarrow> wp (case p of (a, b) \<Rightarrow> f a b) Q c"
  by (cases p) simp

lemma wp_quiet:
  "quiet m \<Longrightarrow> (\<And>x c1. map skel (boxes c1) = map skel (boxes c) \<Longrightarrow> Q x c1) \<Longrightarrow> wp m Q c"
  by (rule wpI) (simp add: quiet_def)

lemma box_a_wp:
  "wp (box_a e n status style)
     (\<lambda>x c'. handler_post (boxes c) (res_box (fst x)) (boxes c')) c"
  unfolding box_a_def Let_def
  apply ((rule wp_bnd_create wp_bnd_add_child wp_result wp_fail wp_ret
         | (rule wp_bnd_quiet, (intro quiet_intros quiet_more; (simp add: skel_def; fail))[1])
         | (rule wp_bnd_set_box, (simp add: skel_def; fail), (simp; fail))
         | rule wp_if wp_case_option wp_case_url
         | (simp, rule single_new_post [where t = BOX_INLINE and cl = 1 and rw = 1];
            simp add: upd_append_len nth_append_len))+)
  done

lemma box_body_wp:
  "wp (box_body e n status style)
     (\<lambda>x c'. handler_post (boxes c) (res_box (fst x)) (boxes c')) c"
  unfolding box_body_def
  apply ((rule wp_bnd_create wp_bnd_add_child wp_result wp_fail wp_ret
         | (rule wp_bnd_quiet, (intro quiet_intros quiet_more; (simp add: skel_def; fail))[1])
         | (rule wp_bnd_set_box, (simp add: skel_def; fail), (simp; fail))
         | rule wp_if wp_case_option wp_case_url
         | (simp, rule single_new_post [where t = BOX_INLINE and cl = 1 and rw = 1];
            simp add: upd_append_len nth_append_len))+)
  done

lemma box_br_wp:
  "wp (box_br e n status style)
     (\<lambda>x c'. handler_post (boxes c) (res_box (fst x)) (boxes c')) c"
  unfolding box_br_def
  apply ((rule wp_bnd_create wp_bnd_add_child wp_result wp_fail wp_ret
         | (rule wp_bnd_quiet, (intro quiet_intros quiet_more; (simp add: skel_def; fail))[1])
         | (rule wp_bnd_set_box, (simp add: skel_def; fail), (simp; fail))
         | rule wp_if wp_case_option wp_case_url
         | (simp, rule single_new_post [where t = BOX_BR and cl = 1 and rw = 1];
            simp add: upd_append_len nth_append_len))+)
  done

lemma box_image_wp:
  "wp (box_image e n status style)
     (\<lambda>x c'. handler_post (boxes c) (res_box (fst x)) (boxes c')) c"
  unfolding box_image_def
  apply ((rule wp_bnd_create wp_bnd_add_child wp_result wp_fail wp_ret
         | (rule wp_bnd_quiet, (intro quiet_intros quiet_more; (simp add: skel_def; fail))[1])
         | (rule wp_bnd_set_box, (simp add: skel_def; fail), (simp; fail))
         | rule wp_if wp_case_option wp_case_url
         | (simp, rule single_new_post [where t = BOX_INLINE and cl = 1 and rw = 1];
            simp add: upd_append_len nth_append_len))+)
  done

lemma box_form_wp:
  "wp (box_form e n status style)
     (\<lambda>x c'. handler_post (boxes c) (res_box (fst x)) (boxes c')) c"
  unfolding box_form_def Let_def
  apply ((rule wp_bnd_create wp_bnd_add_child wp_result wp_fail wp_ret
         | (rule wp_bnd_quiet, (intro quiet_intros quiet_more; (simp add: skel_def; fail))[1])
         | (rule wp_bnd_set_box, (simp add: skel_def; fail), (simp; fail))
         | rule wp_if wp_case_option wp_case_url
         | (simp, rule single_new_post [where t = BOX_INLINE and cl = 1 and rw = 1];
            simp add: upd_append_len nth_append_len))+)
  done

lemma box_button_wp:
  "wp (box_button e n status style)
     (\<lambda>x c'. handler_post (boxes c) (res_box (fst x)) (boxes c')) c"
  unfolding box_button_def Let_def
  apply ((rule wp_bnd_create wp_bnd_add_child wp_result wp_fail wp_ret
         | (rule wp_bnd_quiet, (intro quiet_intros quiet_more; (simp add: skel_def; fail))[1])
         | (rule wp_bnd_set_box, (simp add: skel_def; fail), (simp; fail))
         | rule wp_if wp_case_option wp_case_url
         | (simp, rule single_new_post [where t = BOX_INLINE_BLOCK and cl = 1 and rw = 1];
            simp add: upd_append_len nth_append_len))+)
  done

lemma box_object_wp:
  "wp (box_object e n status style)
     (\<lambda>x c'. handler_post (boxes c) (res_box (fst x)) (boxes c')) c"
  unfolding box_object_def
  apply ((rule wp_bnd_create wp_bnd_add_child wp_result wp_fail wp_ret
         | (rule wp_bnd_quiet, (intro quiet_intros quiet_more; (simp add: skel_def; fail))[1])
         | (rule wp_bnd_set_box, (simp add: skel_def; fail), (simp; fail))
         | rule wp_if wp_case_option wp_case_url
         | (simp, rule single_new_post [where t = BOX_INLINE and cl = 1 and rw = 1];
            simp add: upd_append_len nth_append_len))+)
  done

lemma box_embed_wp:
  "wp (box_embed e n status style)
     (\<lambda>x c'. handler_post (boxes c) (res_box (fst x)) (boxes c')) c"
  unfolding box_embed_def
  apply ((rule wp_bnd_create wp_bnd_add_child wp_result wp_fail wp_ret
         | (rule wp_bnd_quiet, (intro quiet_intros quiet_more; (simp add: skel_def; fail))[1])
         | (rule wp_bnd_set_box, (simp add: skel_def; fail), (simp; fail))
         | rule wp_if wp_case_option wp_case_url
         | (simp, rule single_new_post [where t = BOX_INLINE and cl = 1 and rw = 1];
            simp add: upd_append_len nth_append_len))+)
  done

lemma box_iframe_wp:
  "wp (box_iframe e n status style)
     (\<lambda>x c'. handler_post (boxes c) (res_box (fst x)) (boxes c')) c"
  unfolding box_iframe_def
  apply ((rule wp_bnd_create wp_bnd_add_child wp_result wp_fail wp_ret
         | (rule wp_bnd_quiet, (intro quiet_intros quiet_more; (simp add: skel_def; fail))[1])
         | (rule wp_bnd_set_box, (simp add: skel_def; fail), (simp; fail))
         | rule wp_if wp_case_option wp_case_url
         | (simp, rule single_new_post [where t = BOX_INLINE and cl = 1 and rw = 1];
            simp add: upd_append_len nth_append_len))+)
  done

lemma wp_add_child:
  "(\<And>c1. map skel (boxes c1) = sk_add_child p ch (map skel (boxes c)) \<Longrightarrow>
      length (boxes c1) = length (boxes c) \<Longrightarrow> Q () c1) \<Longrightarrow>
   wp (box_add_child p ch) Q c"
  by (rule wpI) (auto simp: box_add_child_Inr skel_add_child length_add_child)

lemma box_select_wp:
  "wp (box_select e n status style)
     (\<lambda>x c'. handler_post (boxes c) (res_box (fst x)) (boxes c')) c"
  unfolding box_select_def
  apply ((rule wp_bnd_create wp_bnd_add_child wp_add_child wp_result wp_fail wp_ret
         | (rule wp_bnd_quiet, (intro quiet_intros quiet_more; (simp add: skel_def; fail))[1])
         | (rule wp_bnd_set_box, (simp add: skel_def; fail), (simp; fail))
         | rule wp_if wp_case_option wp_case_url
         | (simp, rule seg_post [where s = "(BOX_INLINE_BLOCK, [Suc (length (boxes c))], 1, 1)"
              and seg = "[(BOX_INLINE_CONTAINER, [Suc (Suc (length (boxes c)))], 1, 1),
                          (BOX_INLINE, [], 1, 1)]"];
            (simp add: sk_add_child_def nth_append list_update_append upd_append_len nth_append_len edge_ok_def; fail))
         | (simp, rule none_post; (simp; fail)))+)
  done

lemma box_input_text_wp:
  "wp (box_input_text e n status style pw)
     (\<lambda>x c'. x = length (boxes c) \<and> length (boxes c') = Suc (Suc (Suc (length (boxes c)))) \<and>
        map skel (boxes c') = map skel (boxes c) @
          [(BOX_INLINE_BLOCK, [Suc (length (boxes c))], 1, 1),
           (BOX_INLINE_CONTAINER, [Suc (Suc (length (boxes c)))], 1, 1),
           (BOX_INLINE, [], 1, 1)]) c"
  unfolding box_input_text_def
  apply ((rule wp_bnd_create wp_bnd_add_child wp_add_child wp_result wp_fail wp_ret
         | (rule wp_bnd_quiet, (intro quiet_intros quiet_more; (simp add: skel_def; fail))[1])
         | (rule wp_bnd_set_box, (simp add: skel_def; fail), (simp; fail))
         | rule wp_if wp_case_option wp_case_url
         | (simp add: sk_add_child_def nth_append list_update_append upd_append_len nth_append_len; fail))+)
  done

lemma wp_bnd_input_text:
  "(\<And>c1. map skel (boxes c1) = map skel (boxes c) @
          [(BOX_INLINE_BLOCK, [Suc (length (boxes c))], 1, 1),
           (BOX_INLINE_CONTAINER, [Suc (Suc (length (boxes c)))], 1, 1),
           (BOX_INLINE, [], 1, 1)] \<Longrightarrow>
      length (boxes c1) = Suc (Suc (Suc (length (boxes c)))) \<Longrightarrow>
      wp (f (length (boxes c))) Q c1) \<Longrightarrow>
   wp (bnd (box_input_text e n status style pw) f) Q c"
  by (rule wp_bnd, rule wp_mono [OF box_input_text_wp [of e n status style pw c]]) simp

lemma input_button_text_wp:
  "wp (input_button_text e style box tx)
     (\<lambda>x c'. length (boxes c') = Suc (Suc (length (boxes c))) \<and>
        map skel (boxes c') =
          sk_add_child box (length (boxes c))
            (map skel (boxes c) @
             [(BOX_INLINE_CONTAINER, [Suc (length (boxes c))], 1, 1), (BOX_INLINE, [], 1, 1)])) c"
  unfolding input_button_text_def
  apply ((rule wp_bnd_create wp_bnd_add_child wp_add_child wp_result wp_fail wp_ret
         | (rule wp_bnd_quiet, (intro quiet_intros quiet_more; (simp add: skel_def; fail))[1])
         | (rule wp_bnd_set_box, (simp add: skel_def; fail), (simp; fail))
         | rule wp_if wp_case_option wp_case_url
         | (simp add: sk_add_child_def nth_append list_update_append upd_append_len nth_append_len; fail))+)
  done

lemma wp_bnd_input_button_text:
  "(\<And>c1. map skel (boxes c1) =
          sk_add_child box (length (boxes c))
            (map skel (boxes c) @
             [(BOX_INLINE_CONTAINER, [Suc (length (boxes c))], 1, 1), (BOX_INLINE, [], 1, 1)]) \<Longrightarrow>
      length (boxes c1) = Suc (Suc (length (boxes c))) \<Longrightarrow>
      wp (f ()) Q c1) \<Longrightarrow>
   wp (bnd (input_button_text e style box tx) f) Q c"
  by (rule wp_bnd, rule wp_mono [OF input_button_text_wp [of e style box tx c]]) simp

lemma box_button_wp2:
  "wp (box_button e n status style)
     (\<lambda>x c'. res_box (fst x) = Some (length (boxes c)) \<and>
        length (boxes c') = Suc (length (boxes c)) \<and>
        map skel (boxes c') = map skel (boxes c) @ [(BOX_INLINE_BLOCK, [], 1, 1)]) c"
  unfolding box_button_def Let_def
  apply ((rule wp_bnd_create wp_bnd_add_child wp_add_child wp_result wp_fail wp_ret
         | (rule wp_bnd_quiet, (intro quiet_intros quiet_more; (simp add: skel_def; fail))[1])
         | (rule wp_bnd_set_box, (simp add: skel_def; fail), (simp; fail))
         | rule wp_if wp_case_option wp_case_url
         | (simp add: sk_add_child_def nth_append list_update_append upd_append_len nth_append_len; fail))+)
  done

lemma wp_bnd_button:
  "(\<And>x c1. map skel (boxes c1) = map skel (boxes c) @ [(BOX_INLINE_BLOCK, [], 1, 1)] \<Longrightarrow>
      length (boxes c1) = Suc (length (boxes c)) \<Longrightarrow>
      res_box (fst x) = Some (length (boxes c)) \<Longrightarrow>
      wp (f x) Q c1) \<Longrightarrow>
   wp (bnd (box_button e n status style) f) Q c"
  by (rule wp_bnd, rule wp_mono [OF box_button_wp2 [of e n status style c]]) simp

lemma box_input_wp:
  "wp (box_input e n status style)
     (\<lambda>x c'. handler_post (boxes c) (res_box (fst x)) (boxes c')) c"
  unfolding box_input_def input_finish_def Let_def
  apply ((rule wp_bnd_input_text wp_bnd_input_button_text wp_bnd_button wp_case_prod
         | rule wp_bnd_create wp_bnd_add_child wp_add_child wp_result wp_fail wp_ret
         | (rule wp_bnd_quiet, (intro quiet_intros quiet_more; (simp add: skel_def; fail))[1])
         | (rule wp_bnd_set_box, (simp add: skel_def; fail), (simp; fail))
         | rule wp_if wp_case_option wp_case_url
         | (simp, rule single_new_post [where t = BOX_INLINE and cl = 1 and rw = 1];
            (simp add: sk_add_child_def nth_append list_update_append upd_append_len nth_append_len; fail))
         | (simp, rule single_new_post [where t = BOX_INLINE_BLOCK and cl = 1 and rw = 1];
            (simp add: sk_add_child_def nth_append list_update_append upd_append_len nth_append_len; fail))
         | (simp, rule seg_post [where s = "(BOX_INLINE_BLOCK, [Suc (length (boxes c))], 1, 1)"
              and seg = "[(BOX_INLINE_CONTAINER, [Suc (Suc (length (boxes c)))], 1, 1),
                          (BOX_INLINE, [], 1, 1)]"];
            (simp add: sk_add_child_def nth_append list_update_append upd_append_len nth_append_len edge_ok_def; fail))
         | (simp, rule none_post; (simp; fail)))+)
  done

lemma add_new_child_grows:
  assumes "p < length bs" and "edge_ok (b_type (bs ! p)) (b_type x)" and "b_children x = []"
  shows "grows bs (add_child p (length bs) (bs @ [x]))"
proof -
  have e: "ext bs (add_child p (length bs) (bs @ [x]))"
    by (rule ext_add_child [OF ext_append])
  have "tree_ok (add_child p (length bs) (bs @ [x]))" if t: "tree_ok bs"
  proof (rule tree_ok_add_child)
    show "tree_ok (bs @ [x])"
      using t assms(3) by (rule tree_ok_append)
    show "p < length (bs @ [x])" "length bs < length (bs @ [x])"
      using assms(1) by simp_all
    show "edge_ok (b_type ((bs @ [x]) ! p)) (b_type ((bs @ [x]) ! length bs))"
      using assms(1,2) by (simp add: nth_append)
  qed
  then show ?thesis
    using e by (simp add: grows_def)
qed

lemma grows_ext: "grows bs bs' \<Longrightarrow> ext bs bs'"
  by (simp add: grows_def)

lemma textarea_lines_post:
  "textarea_lines e style box ic cur c = Inr (d, c') \<Longrightarrow> cont_ok (boxes c) ic \<Longrightarrow>
   grows (boxes c) (boxes c')"
proof (induction e style box ic cur arbitrary: c rule: textarea_lines.induct)
  case (1 e style box ic cur)
  note run = "1.prems"(1) [unfolded textarea_lines.simps [of e style box ic cur] Let_def]
  define len where "len = strcspn_crlf cur"
  show ?case
  proof (cases "malloc_ok e (allocs c)")
    case False
    have q: "quiet (bnd (box_free box) (\<lambda>_. ret False))"
      by (intro quiet_intros quiet_more)
    from run False have "bnd (box_free box) (\<lambda>_. ret False) (c\<lparr>allocs := Suc (allocs c)\<rparr>) =
        Inr (d, c')"
      by (auto simp: bnd_Inr_iff [of "try_alloc e"] try_alloc_Inr)
    from quietD [OF q this] show ?thesis
      using skel_grows [of "boxes c" "boxes c'"] by simp
  next
    case True
    define x where "x = (new_box (Some style) None None None)\<lparr>b_type := BOX_INLINE,
      b_style_clone := True, b_text := Some (take len cur), b_length := len\<rparr>"
    define cA where "cA = c\<lparr>allocs := Suc (Suc (allocs c)),
      boxes := add_child ic (length (boxes c)) (boxes c @ [x])\<rparr>"
    define x2 where "x2 = (new_box (Some style) None None None)\<lparr>b_type := BOX_BR,
      b_style_clone := True\<rparr>"
    define cB where "cB = cA\<lparr>allocs := Suc (allocs cA),
      boxes := add_child ic (length (boxes cA)) (boxes cA @ [x2])\<rparr>"
    from run True have rest: "(case drop len cur of
          [] \<Rightarrow> ret True
        | y # rest \<Rightarrow>
            bnd (box_create e (Some style) None None None) (\<lambda>br_box.
            bnd (set_box br_box (\<lambda>b. b\<lparr>b_type := BOX_BR, b_style_clone := True\<rparr>)) (\<lambda>_.
            bnd (box_add_child ic br_box) (\<lambda>_.
            textarea_lines e style box ic (skip_eol (y # rest)))))) cA = Inr (d, c')"
      by (auto simp: bnd_Inr_iff try_alloc_Inr box_create_Inr_iff set_box_Inr upd_box_def
          box_add_child_Inr len_def x_def cA_def simp del: textarea_lines.simps)
    have icl: "ic < length (boxes c)" and ict: "b_type (boxes c ! ic) = BOX_INLINE_CONTAINER"
      using "1.prems"(2) by (simp_all add: cont_ok_def)
    have gA: "grows (boxes c) (boxes cA)"
      unfolding cA_def using add_new_child_grows [of ic "boxes c" x] icl ict
      by (simp add: x_def new_box_def edge_ok_inline)
    have coA: "cont_ok (boxes cA) ic"
      using cont_ok_ext [OF grows_ext [OF gA] "1.prems"(2)] .
    show ?thesis
    proof (cases "drop len cur")
      case Nil
      then have "c' = cA"
        using rest by (simp add: ret_Inr)
      then show ?thesis
        using gA by simp
    next
      case (Cons y rest')
      then have rec: "textarea_lines e style box ic (skip_eol (y # rest')) cB = Inr (d, c')"
        using rest
        by (auto simp: bnd_Inr_iff box_create_Inr_iff set_box_Inr upd_box_def
            box_add_child_Inr x2_def cB_def simp del: textarea_lines.simps)
      have iclA: "ic < length (boxes cA)" and ictA: "b_type (boxes cA ! ic) = BOX_INLINE_CONTAINER"
        using coA by (simp_all add: cont_ok_def)
      have gB: "grows (boxes cA) (boxes cB)"
        unfolding cB_def using add_new_child_grows [of ic "boxes cA" x2] iclA ictA
        by (simp add: x2_def new_box_def edge_ok_inline)
      have coB: "cont_ok (boxes cB) ic"
        using cont_ok_ext [OF grows_ext [OF gB] coA] .
      have d: "drop (strcspn_crlf cur) cur = y # rest'"
        using Cons by (simp add: len_def)
      have ok: "\<not> \<not> True" by simp
      note ih = "1.IH" [OF refl ok d rec coB]
      show ?thesis
        using grows_trans [OF grows_trans [OF gA gB] ih] .
    qed
  qed
qed


lemma type_via_skel: "i < length bs \<Longrightarrow> b_type (bs ! i) = fst (map skel bs ! i)"
  by (simp add: skel_def)

lemma wp_bnd_textarea_lines:
  "cont_ok (boxes c) ic \<Longrightarrow>
   (\<And>d c1. grows (boxes c) (boxes c1) \<Longrightarrow> wp (f d) Q c1) \<Longrightarrow>
   wp (bnd (textarea_lines e style box ic cur) f) Q c"
  by (rule wp_bnd_spec) (simp add: textarea_lines_post)

lemma textarea_close:
  assumes g: "grows bz b1"
    and sk: "map skel bz = map skel bs @
        [(BOX_INLINE_BLOCK, [Suc (length bs)], 1, 1), (BOX_INLINE_CONTAINER, [], 1, 1)]"
  shows "handler_post bs None b1" and "map skel b2 = map skel b1 \<Longrightarrow>
    handler_post bs (Some (length bs)) b2"
proof -
  have hz: "handler_post bs (Some (length bs)) bz"
    by (rule seg_post [OF sk]) (simp_all add: edge_ok_def)
  then have gz: "grows bs bz"
    by (simp add: handler_post_def)
  have "length bz = Suc (Suc (length bs))"
    using sk by (auto dest: arg_cong [where f = length])
  then have lz: "length bs < length bz"
    by simp
  have tz: "b_type (bz ! length bs) = BOX_INLINE_BLOCK"
    using type_via_skel [OF lz] by (simp add: sk nth_append)
  have g1: "grows bs b1"
    using grows_trans [OF gz g] .
  then show "handler_post bs None b1"
    by (simp add: handler_post_def)
  assume e: "map skel b2 = map skel b1"
  have g2: "grows bs b2"
    using grows_trans [OF g1 skel_grows [OF e [symmetric]]] .
  have ez: "ext bz b2"
    using ext_trans [OF grows_ext [OF g] skel_ext [OF e [symmetric]]] .
  have "length bs < length b2" "b_type (b2 ! length bs) = BOX_INLINE_BLOCK"
    using ext_length [OF ez] ext_old [OF ez lz] lz tz by simp_all
  then show "handler_post bs (Some (length bs)) b2"
    using g2 by (simp add: handler_post_def)
qed

lemma box_textarea_wp:
  "wp (box_textarea e n status style)
     (\<lambda>x c'. handler_post (boxes c) (res_box (fst x)) (boxes c')) c"
  unfolding box_textarea_def
  apply ((rule wp_bnd_create wp_bnd_add_child wp_add_child wp_result wp_fail wp_ret
         | (rule wp_bnd_quiet, (intro quiet_intros quiet_more; (simp add: skel_def; fail))[1])
         | (rule wp_bnd_set_box, (simp add: skel_def; fail), (simp; fail))
         | (rule wp_bnd_textarea_lines, (simp add: cont_ok_def type_via_skel sk_add_child_def nth_append list_update_append upd_append_len nth_append_len; fail))
         | rule wp_if wp_case_option wp_case_url
         | (simp, rule textarea_close(1), assumption, (simp add: sk_add_child_def nth_append list_update_append upd_append_len nth_append_len; fail))
         | (simp, rule textarea_close(2), assumption, (simp add: sk_add_child_def nth_append list_update_append upd_append_len nth_append_len; fail), (simp; fail)))+)
  done

subsection \<open>The structural invariant: framesets\<close>

lemma wp_quiet_final:
  "quiet m \<Longrightarrow>
   (\<And>x c1. map skel (boxes c1) = map skel (boxes c) \<Longrightarrow> length (boxes c1) = length (boxes c) \<Longrightarrow>
      Q x c1) \<Longrightarrow>
   wp m Q c"
proof (rule wpI)
  fix x c1
  assume q: "quiet m"
    and st: "\<And>x c1. map skel (boxes c1) = map skel (boxes c) \<Longrightarrow>
               length (boxes c1) = length (boxes c) \<Longrightarrow> Q x c1"
    and r: "m c = Inr (x, c1)"
  have sk: "map skel (boxes c1) = map skel (boxes c)"
    using q r by (simp add: quiet_def)
  show "Q x c1"
    using st [OF sk skel_eq_length [OF sk]] .
qed

lemma quiet_css_duplicate_style: "quiet (css_duplicate_style e s)"
  unfolding css_duplicate_style_def by (intro quiet_intros)

lemma quiet_box_parse_multi_lengths: "quiet (box_parse_multi_lengths e s)"
  unfolding box_parse_multi_lengths_def by (intro quiet_intros)

lemmas quiet_extra = quiet_css_duplicate_style quiet_box_parse_multi_lengths

lemma length_sk_add_child [simp]: "length (sk_add_child p ch sk) = length sk"
  by (simp add: sk_add_child_def)

lemma cell_close_frame:
  assumes row: "row < length bs" "b_type (bs ! row) = BOX_TABLE_ROW"
    and sk: "map skel b' =
      sk_add_child (length bs) (Suc (length bs))
        (sk_add_child row (length bs) (map skel bs @ [(BOX_TABLE_CELL, [], 1, 1)]) @
         [(BOX_BLOCK, [], 1, 1)])"
  shows "grows bs b'"
proof -
  define xc where "xc = (new_box None None None None)\<lparr>b_type := BOX_TABLE_CELL\<rparr>"
  define xo where "xo = (new_box None None None None)\<lparr>b_type := BOX_BLOCK\<rparr>"
  define bs1 where "bs1 = add_child row (length bs) (bs @ [xc])"
  define bs2 where "bs2 = add_child (length bs) (length bs1) (bs1 @ [xo])"
  have l1: "length bs1 = Suc (length bs)"
    by (simp add: bs1_def length_add_child)
  have g1: "grows bs bs1"
    unfolding bs1_def using row
    by (intro add_new_child_grows) (simp_all add: xc_def new_box_def edge_ok_def)
  have t1: "b_type (bs1 ! length bs) = BOX_TABLE_CELL"
    unfolding bs1_def using nth_add_child [of "length bs" "bs @ [xc]" row "length bs"]
    by (simp add: xc_def)
  have g2: "grows bs1 bs2"
    unfolding bs2_def using t1 l1
    by (intro add_new_child_grows) (simp_all add: xo_def new_box_def edge_ok_def)
  have "map skel bs2 = map skel b'"
    unfolding sk bs2_def bs1_def
    by (simp add: skel_add_child length_add_child skel_new_box skel_type xc_def xo_def)
  from grows_trans [OF grows_trans [OF g1 g2] skel_grows [OF this]] show ?thesis .
qed

lemma cell_close_frameset:
  assumes tp: "table_post bz rb b1"
    and sk3': "map skel b3 = sk_add_child cl rbv (map skel b2)"
    and sk2: "map skel b2 = map skel b1"
    and row: "row < length bs" "b_type (bs ! row) = BOX_TABLE_ROW"
    and cl: "cl = length bs"
    and rb: "rb = Some rbv"
    and skz: "map skel bz = sk_add_child row (length bs) (map skel bs @ [(BOX_TABLE_CELL, [], 1, 1)])"
  shows "grows bs b3"
proof -
  note sk3 = sk3' [unfolded cl]
  define xc where "xc = (new_box None None None None)\<lparr>b_type := BOX_TABLE_CELL\<rparr>"
  define bs1 where "bs1 = add_child row (length bs) (bs @ [xc])"
  have l1: "length bs1 = Suc (length bs)"
    by (simp add: bs1_def length_add_child)
  have g1: "grows bs bs1"
    unfolding bs1_def using row
    by (intro add_new_child_grows) (simp_all add: xc_def new_box_def edge_ok_def)
  have t1: "b_type (bs1 ! length bs) = BOX_TABLE_CELL"
    unfolding bs1_def using nth_add_child [of "length bs" "bs @ [xc]" row "length bs"]
    by (simp add: xc_def)
  have e1z: "map skel bs1 = map skel bz"
    unfolding skz bs1_def by (simp add: skel_add_child skel_new_box skel_type xc_def)
  have gz: "grows bs bz"
    using grows_trans [OF g1 skel_grows [OF e1z]] .
  have lb1: "length bs < length bs1"
    using l1 by simp
  have lz: "length bz = Suc (length bs)" and tz: "b_type (bz ! length bs) = BOX_TABLE_CELL"
    using skel_eq_length [OF e1z] skel_eq_nth [OF e1z lb1] l1 t1 by simp_all
  have lbz: "length bs < length bz"
    using lz by simp
  have g1': "grows bz b1" and rbv: "rbv = length bz" and l1': "length bz < length b1"
    and t1': "b_type (b1 ! length bz) = BOX_TABLE"
    using tp rb by (simp_all add: table_post_def)
  have e12: "map skel b1 = map skel b2"
    using sk2 by simp
  have g2: "grows b1 b2"
    using skel_grows [OF e12] .
  have ez2: "ext bz b2"
    using ext_trans [OF grows_ext [OF g1'] grows_ext [OF g2]] .
  have cl: "length bs < length b2" "rbv < length b2"
    and ct: "b_type (b2 ! length bs) = BOX_TABLE_CELL" "b_type (b2 ! rbv) = BOX_TABLE"
    using ext_length [OF ez2] ext_old [OF ez2 lbz] lz tz rbv l1' t1'
      skel_eq_length [OF e12] skel_eq_nth [OF e12 l1']
    by simp_all
  have e3: "map skel (add_child (length bs) rbv b2) = map skel b3"
    unfolding sk3 by (simp add: skel_add_child)
  have "grows b2 (add_child (length bs) rbv b2)"
    unfolding grows_def using cl ct ext_add_child [OF ext_refl, of b2 "length bs" rbv]
      tree_ok_add_child [of b2 "length bs" rbv]
    by (simp add: edge_ok_def)
  then have g3: "grows b2 b3"
    using grows_trans skel_grows [OF e3] by blast
  show ?thesis
    using grows_trans [OF grows_trans [OF grows_trans [OF gz g1'] g2] g3] .
qed

lemma row_close:
  assumes sk: "map skel b' =
      sk_add_child box (length bs) (map skel bs @ [(BOX_TABLE_ROW, [], 1, 1)])"
    and box: "box < length bs" "b_type (bs ! box) = BOX_TABLE"
  shows "grows bs b' \<and> length bs < length b' \<and> b_type (b' ! length bs) = BOX_TABLE_ROW"
proof -
  define xr where "xr = (new_box None None None None)\<lparr>b_type := BOX_TABLE_ROW\<rparr>"
  define bs1 where "bs1 = add_child box (length bs) (bs @ [xr])"
  have l1: "length bs1 = Suc (length bs)"
    by (simp add: bs1_def length_add_child)
  have g1: "grows bs bs1"
    unfolding bs1_def using box
    by (intro add_new_child_grows) (simp_all add: xr_def new_box_def edge_ok_def)
  have t1: "b_type (bs1 ! length bs) = BOX_TABLE_ROW"
    unfolding bs1_def using nth_add_child [of "length bs" "bs @ [xr]" box "length bs"]
    by (simp add: xr_def)
  have e: "map skel bs1 = map skel b'"
    unfolding sk bs1_def by (simp add: skel_add_child skel_new_box skel_type xr_def)
  have lb1: "length bs < length bs1"
    using l1 by simp
  show ?thesis
    using grows_trans [OF g1 skel_grows [OF e]] skel_eq_length [OF e]
      skel_eq_nth [OF e lb1] l1 t1
    by simp
qed

lemma table_close:
  assumes g: "grows bz b1"
    and sk: "map skel bz = map skel bs @ [(BOX_TABLE, [], 1, 1)]"
  shows "table_post bs (Some (length bs)) b1"
proof -
  have hz: "handler_post bs (Some (length bs)) bz"
    by (rule seg_post [OF sk]) (simp_all add: edge_ok_def)
  then have gz: "grows bs bz"
    by (simp add: handler_post_def)
  have "length bz = Suc (length bs)"
    using sk by (auto dest: arg_cong [where f = length])
  then have lz: "length bs < length bz"
    by simp
  have tz: "b_type (bz ! length bs) = BOX_TABLE"
    using type_via_skel [OF lz] by (simp add: sk nth_append)
  have "length bs < length b1" "b_type (b1 ! length bs) = BOX_TABLE"
    using ext_length [OF grows_ext [OF g]] ext_old [OF grows_ext [OF g] lz] lz tz by simp_all
  then show ?thesis
    using grows_trans [OF gz g] by (simp add: table_post_def)
qed

lemma box_frameset_post:
  "box_frameset e n status style c = Inr ((r, st'), c') \<Longrightarrow>
   table_post (boxes c) (res_box r) (boxes c')"
proof (induction e n status style arbitrary: c r st' c' rule: box_frameset.induct)
  case (1 e n status style)
  have self_rule: "wp (bnd (box_frameset e ch st sty) f) Q s"
    if "ch \<in> set (node_children n)"
      and "\<And>x c1. table_post (boxes s) (res_box (fst x)) (boxes c1) \<Longrightarrow> wp (f x) Q c1"
    for ch st sty s and f :: "box_result \<times> box_status \<Rightarrow> unit cm" and Q
  proof (rule wp_bnd_spec)
    fix x c1
    assume "box_frameset e ch st sty s = Inr (x, c1)"
    then have "table_post (boxes s) (res_box (fst x)) (boxes c1)"
      using "1.IH" [OF that(1), of st sty s "fst x" "snd x" c1] by simp
    then show "wp (f x) Q c1"
      by (rule that(2))
  qed
  have cell: "wp (frameset_cell e (box_frameset e) st sty cw row col ch)
      (\<lambda>x c'. grows (boxes s) (boxes c')) s"
    if ch: "ch \<in> set (node_children n)"
      and row: "row < length (boxes s)" "b_type (boxes s ! row) = BOX_TABLE_ROW"
    for st sty cw row col ch s
    unfolding frameset_cell_def Let_def
    apply (insert row)
    apply ((rule self_rule [OF ch]
         | rule wp_bnd_create wp_bnd_add_child wp_add_child wp_result wp_fail wp_ret
         | (rule wp_bnd_quiet, (intro quiet_intros quiet_more quiet_extra; (simp add: skel_def; fail))[1])
         | (rule wp_quiet_final, (intro quiet_intros quiet_more quiet_extra; (simp add: skel_def; fail))[1])
         | (rule wp_bnd_set_box, (simp add: skel_def; fail), (simp; fail))
         | rule wp_if wp_case_option wp_case_url wp_case_prod
         | (rule cell_close_frame, assumption, assumption, (simp add: sk_add_child_def nth_append list_update_append upd_append_len nth_append_len; fail))
         | (rule cell_close_frameset, assumption, assumption, assumption, assumption, assumption, (simp; fail), (simp; fail), (simp add: sk_add_child_def nth_append list_update_append upd_append_len nth_append_len; fail)))+)
    done
  have cols: "grows (boxes s) (boxes s') \<and> set cs' \<subseteq> set cs"
    if "frameset_cols e (box_frameset e) st sty cw row col k cs s = Inr (cs', s')"
      and "set cs \<subseteq> set (node_children n)"
      and "row < length (boxes s)" "b_type (boxes s ! row) = BOX_TABLE_ROW"
    for st sty cw row col k cs s cs' s'
    using that
  proof (induction k arbitrary: col cs s)
    case 0
    then show ?case by (simp add: ret_Inr grows_refl del: box_frameset.simps)
  next
    case (Suc k)
    show ?case
    proof (cases "frameset_skip cs")
      case Nil
      then show ?thesis
        using Suc.prems(1) by (simp add: ret_Inr grows_refl del: box_frameset.simps)
    next
      case (Cons ch rest)
      note sk = set_frameset_skip [OF Cons]
      from Suc.prems(1) Cons obtain u s1 where
        c1: "frameset_cell e (box_frameset e) st sty cw row col ch s = Inr (u, s1)"
        and r: "frameset_cols e (box_frameset e) st sty cw row (Suc col) k rest s1 = Inr (cs', s')"
        by (auto simp: bnd_Inr_iff simp del: box_frameset.simps)
      have chn: "ch \<in> set (node_children n)"
        using sk Suc.prems(2) by blast
      have g1: "grows (boxes s) (boxes s1)"
        using wpD [OF cell [OF chn Suc.prems(3,4)] c1] .
      have row1: "row < length (boxes s1)" "b_type (boxes s1 ! row) = BOX_TABLE_ROW"
        using ext_length [OF grows_ext [OF g1]] ext_old [OF grows_ext [OF g1] Suc.prems(3)]
          Suc.prems(3,4) by simp_all
      have "set rest \<subseteq> set (node_children n)"
        using sk Suc.prems(2) by blast
      from Suc.IH [OF r this row1] have "grows (boxes s1) (boxes s')" "set cs' \<subseteq> set rest"
        by simp_all
      then show ?thesis
        using grows_trans [OF g1] sk by blast
    qed
  qed
  have rows: "grows (boxes s) (boxes s')"
    if "frameset_rows e (box_frameset e) st sty cw box cols k cs s = Inr (u, s')"
      and "set cs \<subseteq> set (node_children n)"
      and "box < length (boxes s)" "b_type (boxes s ! box) = BOX_TABLE"
    for st sty cw box cols k cs s u s'
    using that
  proof (induction k arbitrary: cs s)
    case 0
    then show ?case by (simp add: ret_Inr grows_refl del: box_frameset.simps)
  next
    case (Suc k)
    show ?case
    proof (cases "cs = []")
      case True
      then show ?thesis
        using Suc.prems(1) by (simp add: ret_Inr grows_refl del: box_frameset.simps)
    next
      case False
      define xr where "xr = (new_box (Some sty) None None None)\<lparr>b_type := BOX_TABLE_ROW\<rparr>"
      define s1 where "s1 = s\<lparr>allocs := Suc (Suc (allocs s)),
        boxes := add_child box (length (boxes s)) (boxes s @ [xr])\<rparr>"
      from Suc.prems(1) False obtain cs1 s2 where
        c: "frameset_cols e (box_frameset e) st sty cw (length (boxes s)) 0 cols cs s1 =
              Inr (cs1, s2)"
        and r: "frameset_rows e (box_frameset e) st sty cw box cols k cs1 s2 = Inr (u, s')"
        by (auto simp: bnd_Inr_iff css_duplicate_style_def alloc_Inr ret_Inr box_create_Inr_iff
            set_box_Inr upd_box_def box_add_child_Inr xr_def s1_def simp del: box_frameset.simps)
      have "map skel (boxes s1) =
          sk_add_child box (length (boxes s)) (map skel (boxes s) @ [(BOX_TABLE_ROW, [], 1, 1)])"
        by (simp add: s1_def skel_add_child skel_type skel_new_box xr_def)
      note rc = row_close [OF this Suc.prems(3,4)]
      have g1: "grows (boxes s) (boxes s1)"
        using rc by simp
      have "grows (boxes s1) (boxes s2)" "set cs1 \<subseteq> set cs"
        using cols [OF c Suc.prems(2)] rc by simp_all
      then have g2: "grows (boxes s) (boxes s2)" and sub: "set cs1 \<subseteq> set (node_children n)"
        using grows_trans [OF g1] Suc.prems(2) by blast+
      have box2: "box < length (boxes s2)" "b_type (boxes s2 ! box) = BOX_TABLE"
        using ext_length [OF grows_ext [OF g2]] ext_old [OF grows_ext [OF g2] Suc.prems(3)]
          Suc.prems(3,4) by simp_all
      from Suc.IH [OF r sub box2] show ?thesis
        using grows_trans [OF g2] by simp
    qed
  qed
  have rows_rule: "wp (bnd (frameset_rows e (box_frameset e) st sty cw box cols k
        (node_children n)) f) Q s"
    if "box < length (map skel (boxes s))" "fst (map skel (boxes s) ! box) = BOX_TABLE"
      and "\<And>x c1. grows (boxes s) (boxes c1) \<Longrightarrow> wp (f x) Q c1"
    for st sty cw box cols k s and f :: "unit \<Rightarrow> (box_result \<times> box_status) cm" and Q
  proof (rule wp_bnd_spec)
    fix x c1
    assume "frameset_rows e (box_frameset e) st sty cw box cols k (node_children n) s =
      Inr (x, c1)"
    then have "grows (boxes s) (boxes c1)"
      using rows [of st sty cw box cols k "node_children n" s x c1] that(1,2)
      by (simp add: type_via_skel)
    then show "wp (f x) Q c1"
      by (rule that(3))
  qed
  have "wp (box_frameset_body e (box_frameset e) n status style)
      (\<lambda>x c'. table_post (boxes c) (res_box (fst x)) (boxes c')) c"
    unfolding box_frameset_body_def Let_def
    apply (((rule rows_rule, (simp add: sk_add_child_def nth_append list_update_append upd_append_len nth_append_len; fail), (simp add: sk_add_child_def nth_append list_update_append upd_append_len nth_append_len; fail))
         | rule wp_bnd_create wp_bnd_add_child wp_add_child wp_result wp_fail wp_ret
         | (rule wp_bnd_quiet, (intro quiet_intros quiet_more quiet_extra; (simp add: skel_def; fail))[1])
         | (rule wp_quiet_final, (intro quiet_intros quiet_more quiet_extra; (simp add: skel_def; fail))[1])
         | (rule wp_bnd_set_box, (simp add: skel_def; fail), (simp; fail))
         | rule wp_if wp_case_option wp_case_url wp_case_prod
         | (simp, rule table_close, assumption, (simp add: sk_add_child_def nth_append list_update_append upd_append_len nth_append_len; fail)))+)
    done
  moreover have "box_frameset_body e (box_frameset e) n status style c = Inr ((r, st'), c')"
    using "1.prems" by (subst (asm) box_frameset.simps) simp
  ultimately show ?case
    using wpD by fastforce
qed

lemma box_frameset_wp:
  "wp (box_frameset e n status style)
     (\<lambda>x c'. handler_post (boxes c) (res_box (fst x)) (boxes c')) c"
proof (rule wpI)
  fix x c'
  assume "box_frameset e n status style c = Inr (x, c')"
  then have "table_post (boxes c) (res_box (fst x)) (boxes c')"
    using box_frameset_post [of e n status style c "fst x" "snd x" c'] by simp
  then show "handler_post (boxes c) (res_box (fst x)) (boxes c')"
    by (auto simp: table_post_def handler_post_def)
qed

subsection \<open>The structural invariant: elements and nodes\<close>

lemma handler_table_wp:
  "element_table name = Some h \<Longrightarrow>
   wp (h e n status style) (\<lambda>x c'. handler_post (boxes c) (res_box (fst x)) (boxes c')) c"
  by (simp add: element_table_def box_a_wp box_body_wp box_br_wp box_button_wp box_embed_wp
      box_form_wp box_frameset_wp box_iframe_wp box_image_wp box_input_wp box_object_wp
      box_select_wp box_textarea_wp del: box_frameset.simps split: if_split_asm)

lemma element_box_wp:
  "wp (element_box e n status style title ident)
     (\<lambda>x c'. handler_post (boxes c) (res_box (fst x)) (boxes c')) c"
proof (cases "element_table (node_name n)")
  case None
  show ?thesis
    unfolding element_box_def None option.case
    apply ((rule wp_bnd_create wp_result
           | (simp, rule single_new_post [where t = BOX_INLINE and cl = 1 and rw = 1];
              (simp; fail)))+)
    done
next
  case (Some h)
  show ?thesis
    unfolding element_box_def Some option.case
    using Some by (rule handler_table_wp)
qed

lemma box_map_not_container: "box_map d \<noteq> BOX_INLINE_CONTAINER"
  by (cases d) simp_all

lemma quiet_element_title_id: "quiet (element_title_id e n status)"
  unfolding element_title_id_def Let_def by (intro quiet_intros)

lemma grows_conv_post: "grows bs bs' \<Longrightarrow> conv_post bs p ic bs' ic"
  using ic_ok_ext [of bs bs' ic] by (auto simp: grows_def conv_post_def)

lemma retype_Inr:
  "(if P then set_box b f else ret ()) c = Inr (u, c') \<longleftrightarrow> c' = (if P then upd_box b f c else c)"
  by (auto simp: set_box_Inr ret_Inr)

lemma element_place_post:
  assumes conv: "\<And>ch ps p ic st c ic' c'. ch \<in> set (node_children n) \<Longrightarrow>
             conv ch ps p ic st c = Inr (ic', c') \<Longrightarrow> conv_post (boxes c) p ic (boxes c') ic'"
    and run: "element_place e conv n style parent ic status title ident flag box c2 =
              Inr (ic', c')"
    and hp: "handler_post bs (Some box) (boxes c2)"
  shows "conv_post bs parent ic (boxes c') ic'"
proof -
  define t where "t = box_map (display style)"
  define c3 where "c3 = (if b_type (boxes c2 ! box) = BOX_INLINE
      then upd_box box (\<lambda>b. b\<lparr>b_type := t\<rparr>) c2 else c2)"
  define type where "type = b_type (boxes c3 ! box)"
  define inl where "inl = (type = BOX_INLINE \<or> type = BOX_INLINE_BLOCK \<or>
      float' style = CSS_FLOAT_LEFT \<or> float' style = CSS_FLOAT_RIGHT \<or> type = BOX_BR)"
  have "\<exists>at_end parent' ic1 c4 c5.
      (if inl then element_inline e conv n style parent ic status title ident flag box type
       else ret (False, parent, ic)) c3 = Inr ((at_end, parent', ic1), c4) \<and>
      (if at_end then ret ic1
       else element_block e conv n style parent' ic1 status flag box) c4 = Inr (ic', c5) \<and>
      element_end e (Some box) c5 = Inr ((), c')"
    using run unfolding element_place_def t_def c3_def type_def inl_def
    by (auto simp: bnd_Inr_iff gets_Inr retype_Inr ret_Inr)
  then obtain at_end parent' ic1 c4 c5 where
    s1: "(if inl then element_inline e conv n style parent ic status title ident flag box type
          else ret (False, parent, ic)) c3 = Inr ((at_end, parent', ic1), c4)"
    and s2: "(if at_end then ret ic1
          else element_block e conv n style parent' ic1 status flag box) c4 = Inr (ic', c5)"
    and s3: "element_end e (Some box) c5 = Inr ((), c')"
    by blast
  have b3: "boxes c3 = (if b_type (boxes c2 ! box) = BOX_INLINE
      then (boxes c2)[box := (boxes c2 ! box)\<lparr>b_type := t\<rparr>] else boxes c2)"
    by (simp add: c3_def upd_box_def)
  have tn: "t \<noteq> BOX_INLINE_CONTAINER"
    by (simp add: t_def box_map_not_container)
  note rt = retype_post [OF hp b3 tn]
  from rt have g3: "grows bs (boxes c3)" and bx: "length bs \<le> box"
    and bl3: "box < length (boxes c3)" and nic: "type \<noteq> BOX_INLINE_CONTAINER"
    unfolding type_def by blast+
  note e3 = grows_ext [OF g3]
  have b5: "boxes c' = boxes c5"
    using element_end_boxes [OF s3] .
  have mid: "ext (boxes c3) (boxes c4) \<and>
      (tree_ok (boxes c3) \<and> parent_ok (boxes c3) parent \<and> ic_ok (boxes c3) ic \<longrightarrow>
         tree_ok (boxes c4) \<and> ic_ok (boxes c4) ic1 \<and>
         (\<not> at_end \<longrightarrow>
            parent' < length (boxes c4) \<and>
            b_type (boxes c4 ! parent') \<noteq> BOX_INLINE_CONTAINER \<and>
            type \<noteq> BOX_INLINE \<and> type \<noteq> BOX_BR))"
  proof (cases inl)
    case True
    then have r: "element_inline e conv n style parent ic status title ident flag box type c3 =
        Inr ((at_end, parent', ic1), c4)"
      using s1 by simp
    have ty: "b_type (boxes c3 ! box) = type"
      by (simp add: type_def)
    show ?thesis
      using element_inline_post [OF conv r ty bl3 nic] .
  next
    case False
    then have "\<not> at_end" "parent' = parent" "ic1 = ic" "c4 = c3"
      using s1 by (simp_all add: ret_Inr)
    moreover have "type \<noteq> BOX_INLINE" "type \<noteq> BOX_BR"
      using False by (simp_all add: inl_def)
    ultimately show ?thesis
      by (simp add: ext_refl parent_ok_def)
  qed
  then have e4: "ext (boxes c3) (boxes c4)"
    by simp
  note eb4 = ext_trans [OF e3 e4]
  have pre4: "tree_ok (boxes c4) \<and> ic_ok (boxes c4) ic1 \<and>
         (\<not> at_end \<longrightarrow>
            parent' < length (boxes c4) \<and>
            b_type (boxes c4 ! parent') \<noteq> BOX_INLINE_CONTAINER \<and>
            type \<noteq> BOX_INLINE \<and> type \<noteq> BOX_BR)"
    if h: "tree_ok bs" "parent_ok bs parent" "ic_ok bs ic"
  proof -
    have "tree_ok (boxes c3)"
      using g3 h(1) by (simp add: grows_def)
    moreover have "parent_ok (boxes c3) parent"
      using parent_ok_ext [OF e3 h(2)] .
    moreover have "ic_ok (boxes c3) ic"
      using ic_ok_ext [OF e3 h(3)] .
    ultimately show ?thesis
      using mid by simp
  qed
  show ?thesis
  proof (cases at_end)
    case True
    then have eq: "ic' = ic1" "c5 = c4"
      using s2 by (simp_all add: ret_Inr)
    show ?thesis
      unfolding conv_post_def b5 eq using eb4 pre4 by simp
  next
    case False
    then have blk: "element_block e conv n style parent' ic1 status flag box c4 = Inr (ic', c5)"
      using s2 by simp
    note bp = element_block_post [OF conv blk eb4 bx]
    have "tree_ok (boxes c5) \<and> ic_ok (boxes c5) ic'"
      if h: "tree_ok bs" "parent_ok bs parent" "ic_ok bs ic"
    proof -
      note p4 = pre4 [OF h]
      have b4: "box < length (boxes c4)"
        using bl3 ext_length [OF e4] by simp
      have t4: "b_type (boxes c4 ! box) = type"
        using ext_old [OF e4 bl3] by (simp add: type_def)
      have "edge_ok (b_type (boxes c4 ! parent')) (b_type (boxes c4 ! box))"
        unfolding t4 using p4 False by (simp add: edge_ok_block)
      then show ?thesis
        using bp p4 False b4 t4 nic by simp
    qed
    then show ?thesis
      unfolding conv_post_def b5 using bp by simp
  qed
qed

lemma box_construct_element_post:
  assumes conv: "\<And>ch ps p ic st c ic' c'. ch \<in> set (node_children n) \<Longrightarrow>
             conv ch ps p ic st c = Inr (ic', c') \<Longrightarrow> conv_post (boxes c) p ic (boxes c') ic'"
    and run: "box_construct_element e conv n ps parent ic status c = Inr (ic', c')"
  shows "conv_post (boxes c) parent ic (boxes c') ic'"
proof (cases "box_get_style e ps n")
  case None
  then show ?thesis
    using run by (simp add: box_construct_element_def fail_Inr)
next
  case (Some style)
  show ?thesis
  proof (cases "display style = CSS_DISPLAY_NONE")
    case True
    then have "boxes c' = boxes c" "ic' = ic"
      using run Some element_end_boxes [of e None c]
      by (auto simp: box_construct_element_def bnd_Inr_iff ret_Inr)
    then show ?thesis
      by (simp add: conv_post_refl)
  next
    case False
    from run Some False obtain title ident status2 c1 res status3 c2 where
      s1: "element_title_id e n status c = Inr ((title, ident, status2), c1)"
      and s2: "element_box e n status2 style title ident c1 = Inr ((res, status3), c2)"
      and s3: "(case res_box res of
            None \<Rightarrow>
              if res_convert_children res then fail Abort
              else bnd (element_end e None) (\<lambda>_. ret ic)
          | Some box \<Rightarrow>
              element_place e conv n style parent ic status3 title ident
                (res_convert_children res) box) c2 = Inr (ic', c')"
      by (auto simp: box_construct_element_def bnd_Inr_iff)
    have "map skel (boxes c1) = map skel (boxes c)"
      using quietD [OF quiet_element_title_id s1] .
    then have p1: "conv_post (boxes c) parent ic (boxes c1) ic"
      by (simp add: skel_conv_post)
    have hp: "handler_post (boxes c1) (res_box res) (boxes c2)"
      using wpD [OF element_box_wp s2] by simp
    have p2: "conv_post (boxes c1) parent ic (boxes c') ic'"
    proof (cases "res_box res")
      case None
      then have "boxes c' = boxes c2" "ic' = ic"
        using s3 element_end_boxes [of e None c2]
        by (auto simp: bnd_Inr_iff ret_Inr fail_Inr split: if_split_asm)
      then show ?thesis
        using hp by (simp add: handler_post_def grows_conv_post)
    next
      case (Some box)
      then have r: "element_place e conv n style parent ic status3 title ident
          (res_convert_children res) box c2 = Inr (ic', c')"
        using s3 by simp
      show ?thesis
        using element_place_post [OF conv r] hp Some by simp
    qed
    show ?thesis
      using conv_post_trans [OF p1 p2] .
  qed
qed

lemma convert_xml_to_box_post:
  "convert_xml_to_box e n ps parent ic status c = Inr (ic', c') \<Longrightarrow>
   conv_post (boxes c) parent ic (boxes c') ic'"
proof (induction e n ps parent ic status arbitrary: c ic' c' rule: convert_xml_to_box.induct)
  case (1 e n ps parent ic status)
  show ?case
  proof (cases n)
    case (XML_ELEMENT_NODE name props cs)
    have r: "box_construct_element e (\<lambda>c. convert_xml_to_box e c) n ps parent ic status c =
        Inr (ic', c')"
      using "1.prems" XML_ELEMENT_NODE by (subst (asm) convert_xml_to_box.simps) simp
    show ?thesis
    proof (rule box_construct_element_post [OF _ r])
      fix ch ps p ic st c ic' c'
      assume "ch \<in> set (node_children n)" and "convert_xml_to_box e ch ps p ic st c = Inr (ic', c')"
      then show "conv_post (boxes c) p ic (boxes c') ic'"
        using "1.IH" [OF XML_ELEMENT_NODE] by blast
    qed
  next
    case (XML_TEXT_NODE content)
    then have "box_construct_text e content ps parent ic status c = Inr (ic', c')"
      using "1.prems" by (subst (asm) convert_xml_to_box.simps) simp
    then show ?thesis
      by (rule box_construct_text_post)
  next
    case (XML_COMMENT_NODE t)
    then have "boxes c' = boxes c" "ic' = ic"
      using "1.prems" by (subst (asm) convert_xml_to_box.simps, simp add: ret_Inr)+
    then show ?thesis
      by (simp add: conv_post_refl)
  qed
qed

subsection \<open>The structural invariant after a construction pass\<close>

lemma root_box_skel: "skel root_box = (BOX_BLOCK, [], 1, 1)"
  by (simp add: root_box_def skel_def new_box_def)

lemma normalise_Inr:
  "(case box_normalise_block e r c of None \<Rightarrow> Inl NoMemory | Some c' \<Rightarrow> Inr ((), c')) =
     Inr (u, c2) \<longleftrightarrow> box_normalise_block e r c = Some c2"
  by (simp split: option.split)

lemma layout_Inr:
  "(case ch of [] \<Rightarrow> fail Abort | l # rest \<Rightarrow> bnd (modify (f l)) (\<lambda>_. set_box l g)) c =
     Inr (u, c') \<longleftrightarrow> (\<exists>l rest. ch = l # rest \<and> c' = upd_box l g (f l c))"
  by (cases ch) (auto simp: fail_Inr bnd_Inr_iff modify_Inr set_box_Inr)

text \<open>Claim C1. When \<^verbatim>\<open>xml_to_box\<close> returns success on a pool that is in order, and the
  normalisation pass keeps a pool in order, then in the pool it leaves every child of
  every box is a box of the pool, every Inline or LineBreak child has an InlineContainer as
  its parent, and no InlineContainer has a Block child.\<close>

theorem xml_to_box_invariant:
  assumes run: "xml_to_box e n c = Inr (u, c')"
    and t0: "tree_ok (boxes c)"
    and norm: "\<And>root c1 c2. box_normalise_block e root c1 = Some c2 \<Longrightarrow>
                 tree_ok (boxes c1) \<Longrightarrow> tree_ok (boxes c2)"
  shows "tree_ok (boxes c')"
proof -
  define root where "root = length (boxes c)"
  define ca where "ca = c\<lparr>boxes := boxes c @ [root_box]\<rparr>"
  define st0 where
    "st0 = \<lparr>st_href = None, st_title = None, current_form = None, st_id = None\<rparr>"
  have "\<exists>style c1 ic c2 c3 l.
      css_duplicate_style e (css_base_style e) ca = Inr (style, c1) \<and>
      convert_xml_to_box e n style root None st0 c1 = Inr (ic, c2) \<and>
      box_normalise_block e root c2 = Some c3 \<and>
      c' = upd_box l (\<lambda>b. b\<lparr>b_parent := None\<rparr>) (c3\<lparr>layout := Some l\<rparr>)"
    using run unfolding xml_to_box_def root_def ca_def st0_def
    by (auto simp: bnd_Inr_iff gets_Inr modify_Inr normalise_Inr layout_Inr
        simp del: convert_xml_to_box.simps)
  then obtain style c1 ic c2 c3 l where
    a: "css_duplicate_style e (css_base_style e) ca = Inr (style, c1)"
    and b: "convert_xml_to_box e n style root None st0 c1 = Inr (ic, c2)"
    and nb: "box_normalise_block e root c2 = Some c3"
    and c': "c' = upd_box l (\<lambda>b. b\<lparr>b_parent := None\<rparr>) (c3\<lparr>layout := Some l\<rparr>)"
    by blast
  have ta: "tree_ok (boxes ca)"
    unfolding ca_def using tree_ok_append [OF t0, of root_box] by (simp add: root_box_def new_box_def)
  have sk1: "map skel (boxes ca) = map skel (boxes c1)"
    using quietD [OF quiet_css_duplicate_style a] by simp
  have t1: "tree_ok (boxes c1)"
    using tree_ok_skel [OF sk1 ta] .
  have ra: "root < length (boxes ca)" "b_type (boxes ca ! root) = BOX_BLOCK"
    by (simp_all add: ca_def root_def root_box_def)
  have p1: "parent_ok (boxes c1) root"
    using skel_eq_nth [OF sk1 ra(1)] skel_eq_length [OF sk1] ra by (simp add: parent_ok_def)
  have t2: "tree_ok (boxes c2)"
    using convert_xml_to_box_post [OF b] t1 p1 by (simp add: conv_post_def ic_ok_def)
  have t3: "tree_ok (boxes c3)"
    using norm [OF nb t2] .
  have "boxes c' = (boxes c3)[l := (boxes c3 ! l)\<lparr>b_parent := None\<rparr>]"
    by (simp add: c' upd_box_def)
  then show ?thesis
    using tree_ok_update [OF t3, of "(boxes c3 ! l)\<lparr>b_parent := None\<rparr>" l] by simp
qed

theorem xml_to_box_invariant_witness:
  "tree_ok (boxes test_content) \<and>
   (\<forall>root c1. box_normalise_block test_env root c1 = Some c1) \<and>
   (\<exists>c'. xml_to_box test_env paragraph_node test_content = Inr ((), c') \<and>
         tree_ok (boxes c'))"
proof -
  have t0: "tree_ok (boxes test_content)"
    by (simp add: test_content_def tree_ok_def)
  have norm: "\<And>root c1 c2. box_normalise_block test_env root c1 = Some c2 \<Longrightarrow>
      tree_ok (boxes c1) \<Longrightarrow> tree_ok (boxes c2)"
    by (simp add: test_env_def)
  have "\<exists>c'. xml_to_box test_env paragraph_node test_content = Inr ((), c')"
    by (simp add: xml_to_box_def paragraph_node_def box_construct_element_def
      element_title_id_def element_box_def element_table_def element_place_def
      element_block_def element_inline_def element_end_def xmlGetProp_def
      box_construct_text_def squash_whitespace_def is_blank_def box_text_transform_def
      make_container_def css_duplicate_style_def result_def
      test_style_def bnd_def alloc_def ret_def gets_def fail_def test_env_def
      test_content_def box_create_def set_box_def
      modify_def upd_box_def box_add_child_def strdup_def new_box_def
      root_box_def Let_def)
  then obtain c' where r: "xml_to_box test_env paragraph_node test_content = Inr ((), c')"
    by blast
  have "tree_ok (boxes c')"
    using xml_to_box_invariant [OF r t0 norm] .
  moreover have "\<forall>root c1. box_normalise_block test_env root c1 = Some c1"
    by (simp add: test_env_def)
  ultimately show ?thesis
    using t0 r by blast
qed

subsection \<open>Span attributes\<close>















end
